theory Spec2Isabelle
  imports Main "HOL-Library.Word" "HOL-Library.Monad_Syntax"
begin

unbundle bit_operations_syntax

section \<open>The CHIP-8 core of c8.go\<close>

text \<open>
  The Go types \<open>uint8\<close> (\<open>byte\<close>) and \<open>uint16\<close> are words whose arithmetic wraps.
  A fixed-size Go array \<open>[N]T\<close> is a function from the index to the element together
  with the bound \<open>N\<close>: every indexing expression of the source goes through an accessor
  that checks the index against \<open>N\<close>. Where the Go runtime panics (index out of range,
  slice bounds out of range) the model returns \<open>None\<close>; the option monad threads that
  through the statements that follow, which is how a panic abandons the rest of
  \<open>Cpu.Tick\<close>.
\<close>

type_synonym u8 = "8 word"
type_synonym u16 = "16 word"

text \<open>A Go \<open>error\<close> value: \<open>None\<close> is \<open>nil\<close>.\<close>

type_synonym error = "string option"

definition V_PIXELS :: nat where "V_PIXELS = 32"
definition H_PIXELS :: nat where "H_PIXELS = 64"

text \<open>\<open>Memory.buf\<close> is declared as \<open>[0xFFF]byte\<close>.\<close>

definition MEM_SIZE :: nat where "MEM_SIZE = 0xFFF"

subsection \<open>Keyboard\<close>

record Keyboard =
  kb_queue :: "u16 list"

definition NewKeyboard :: Keyboard where
  "NewKeyboard = \<lparr>kb_queue = []\<rparr>"

definition Pop :: "Keyboard \<Rightarrow> u16 option \<times> Keyboard" where
  "Pop kb =
     (if length (kb_queue kb) > 0
      then (Some (kb_queue kb ! 0), kb\<lparr>kb_queue := drop 1 (kb_queue kb)\<rparr>)
      else (None, kb))"

definition Clear :: "Keyboard \<Rightarrow> Keyboard" where
  "Clear kb = kb\<lparr>kb_queue := []\<rparr>"

text \<open>\<open>ebiten.Key\<close> is an \<open>int\<close>; \<open>uint16(key)\<close> truncates it.\<close>

definition keytohex :: "int \<Rightarrow> u16" where
  "keytohex key = (if key \<ge> 43 \<and> key \<le> 52 then word_of_int key - 43 else word_of_int key + 0x10)"

text \<open>\<open>Keyboard.Update\<close>; the argument is what \<open>inpututil.PressedKeys()\<close> returns.\<close>

fun kb_Update :: "int list \<Rightarrow> Keyboard \<Rightarrow> Keyboard" where
  "kb_Update [] kb = kb"
| "kb_Update (key # keys) kb =
     (if (key \<ge> 43 \<and> key \<le> 52) \<or> (key \<ge> 0 \<and> key \<le> 5)
      then kb_Update keys (kb\<lparr>kb_queue := kb_queue kb @ [keytohex key]\<rparr>)
      else kb_Update keys kb)"

subsection \<open>Memory\<close>

record Memory =
  mem_buf :: "nat \<Rightarrow> u8"

definition buf_get :: "Memory \<Rightarrow> nat \<Rightarrow> u8 option" where
  "buf_get mem a = (if a < MEM_SIZE then Some (mem_buf mem a) else None)"

definition buf_set :: "Memory \<Rightarrow> nat \<Rightarrow> u8 \<Rightarrow> Memory option" where
  "buf_set mem a b = (if a < MEM_SIZE then Some (mem\<lparr>mem_buf := (mem_buf mem)(a := b)\<rparr>) else None)"

text \<open>The slice expression \<open>mem.buf[lo:hi]\<close>: Go requires \<open>lo \<le> hi \<le> len\<close>.\<close>

definition buf_slice :: "Memory \<Rightarrow> nat \<Rightarrow> nat \<Rightarrow> u8 list option" where
  "buf_slice mem lo hi =
     (if lo \<le> hi \<and> hi \<le> MEM_SIZE then Some (map (mem_buf mem) [lo..<hi]) else None)"

definition fontset :: "u8 list" where
  "fontset =
    [0xF0, 0x90, 0x90, 0x90, 0xF0, 0x20, 0x60, 0x20, 0x20, 0x70,
     0xF0, 0x10, 0xF0, 0x80, 0xF0, 0xF0, 0x10, 0xF0, 0x10, 0xF0,
     0x90, 0x90, 0xF0, 0x10, 0x10, 0xF0, 0x80, 0xF0, 0x10, 0xF0,
     0xF0, 0x80, 0xF0, 0x90, 0xF0, 0xF0, 0x10, 0x20, 0x40, 0x40,
     0xF0, 0x90, 0xF0, 0x90, 0xF0, 0xF0, 0x90, 0xF0, 0x10, 0xF0,
     0xF0, 0x90, 0xF0, 0x90, 0x90, 0xE0, 0x90, 0xE0, 0x90, 0xE0,
     0xF0, 0x80, 0x80, 0x80, 0xF0, 0xE0, 0x90, 0x90, 0x90, 0xE0,
     0xF0, 0x80, 0xF0, 0x80, 0xF0, 0xF0, 0x80, 0xF0, 0x80, 0x80]"

text \<open>The array literal of \<open>NewMemory\<close>: the listed bytes, zero after them.\<close>

definition NewMemory :: Memory where
  "NewMemory = \<lparr>mem_buf = (\<lambda>a. if a < length fontset then fontset ! a else 0)\<rparr>"

text \<open>
  \<open>Memory.Load\<close>. The argument stands for the file at \<open>path\<close>: \<open>None\<close> when \<open>os.Open\<close>
  fails, otherwise the bytes of the file. \<open>f.Read(m.buf[0x200:])\<close> fills the slice
  from the start of the file, up to the length of the slice; whatever the file holds
  beyond that is not read, and the error of \<open>Read\<close> is dropped.
\<close>

definition Load :: "u8 list option \<Rightarrow> Memory \<Rightarrow> error \<times> Memory" where
  "Load file m =
     (case file of
        None \<Rightarrow> (Some ''open'', m)
      | Some img \<Rightarrow>
          (None, m\<lparr>mem_buf := (\<lambda>a. if 0x200 \<le> a \<and> a < 0x200 + min (length img) (MEM_SIZE - 0x200)
                                     then img ! (a - 0x200) else mem_buf m a)\<rparr>))"

subsection \<open>Video memory\<close>

record VideoMemory =
  vme_buf :: "nat \<Rightarrow> nat \<Rightarrow> u8"
  vme_mem :: "nat \<Rightarrow> nat \<Rightarrow> u8"

definition NewVideoMemory :: VideoMemory where
  "NewVideoMemory = \<lparr>vme_buf = (\<lambda>x y. 0), vme_mem = (\<lambda>x y. 0)\<rparr>"

definition clear :: "VideoMemory \<Rightarrow> VideoMemory" where
  "clear vme =
     vme\<lparr>vme_buf := (\<lambda>x y. if x < H_PIXELS \<and> y < V_PIXELS then 0 else vme_buf vme x y)\<rparr>"

definition draw_pixcel :: "VideoMemory \<Rightarrow> u16 \<Rightarrow> u16 \<Rightarrow> u8 \<Rightarrow> (u16 \<times> VideoMemory) option" where
  "draw_pixcel vme x y new =
     (if unat x < H_PIXELS \<and> unat y < V_PIXELS then
        Some (if vme_buf vme (unat x) (unat y) = 1 \<and> new = 1 then 1 else 0,
              vme\<lparr>vme_buf := (vme_buf vme)
                 (unat x := (vme_buf vme (unat x))
                    (unat y := vme_buf vme (unat x) (unat y) XOR new))\<rparr>)
      else None)"

text \<open>The body of the loop of \<open>draw\<close>: one sprite row, eight calls in the source's order.\<close>

definition draw_row :: "VideoMemory \<Rightarrow> u16 \<Rightarrow> u16 \<Rightarrow> u8 \<Rightarrow> u16 \<Rightarrow> (u16 \<times> VideoMemory) option" where
  "draw_row vme x yi byte vf = do {
     (c, vme) \<leftarrow> draw_pixcel vme x yi (drop_bit 7 byte AND 0x1);
     let vf = vf + c;
     (c, vme) \<leftarrow> draw_pixcel vme (x + 1) yi (drop_bit 6 byte AND 0x1);
     let vf = vf + c;
     (c, vme) \<leftarrow> draw_pixcel vme (x + 2) yi (drop_bit 5 byte AND 0x1);
     let vf = vf + c;
     (c, vme) \<leftarrow> draw_pixcel vme (x + 3) yi (drop_bit 4 byte AND 0x1);
     let vf = vf + c;
     (c, vme) \<leftarrow> draw_pixcel vme (x + 4) yi (drop_bit 3 byte AND 0x1);
     let vf = vf + c;
     (c, vme) \<leftarrow> draw_pixcel vme (x + 5) yi (drop_bit 2 byte AND 0x1);
     let vf = vf + c;
     (c, vme) \<leftarrow> draw_pixcel vme (x + 6) yi (drop_bit 1 byte AND 0x1);
     let vf = vf + c;
     (c, vme) \<leftarrow> draw_pixcel vme (x + 7) yi (drop_bit 0 byte AND 0x1);
     let vf = vf + c;
     Some (vf, vme)
   }"

text \<open>\<open>for i, byte := range buf\<close>, with \<open>i := uint16(i)\<close>.\<close>

fun draw_loop :: "VideoMemory \<Rightarrow> u16 \<Rightarrow> u16 \<Rightarrow> nat \<Rightarrow> u8 list \<Rightarrow> u16 \<Rightarrow> (u16 \<times> VideoMemory) option" where
  "draw_loop vme x y i [] vf = Some (vf, vme)"
| "draw_loop vme x y i (byte # rest) vf =
     (case draw_row vme x (y + of_nat i) byte vf of
        None \<Rightarrow> None
      | Some (vf', vme') \<Rightarrow> draw_loop vme' x y (Suc i) rest vf')"

definition draw :: "VideoMemory \<Rightarrow> u16 \<Rightarrow> u16 \<Rightarrow> u8 list \<Rightarrow> (u8 \<times> VideoMemory) option" where
  "draw vme x y buf =
     (case draw_loop vme x y 0 buf 0 of
        None \<Rightarrow> None
      | Some (vf, vme') \<Rightarrow> Some (if vf > 0 then 1 else 0, vme'))"

subsection \<open>CPU\<close>

record Cpu =
  cpu_v :: "nat \<Rightarrow> u8"
  cpu_i :: u16
  cpu_stack :: "nat \<Rightarrow> u16"
  cpu_sp :: u16
  cpu_pc :: u16
  cpu_dt :: u16
  cpu_st :: u16
  cpu_lastd :: int
  cpu_lasts :: int

text \<open>\<open>Cpu.v\<close> is \<open>[64]uint8\<close>, \<open>Cpu.stack\<close> is \<open>[16]uint16\<close>.\<close>

definition v_get :: "Cpu \<Rightarrow> nat \<Rightarrow> u8 option" where
  "v_get cpu n = (if n < 64 then Some (cpu_v cpu n) else None)"

definition v_set :: "Cpu \<Rightarrow> nat \<Rightarrow> u8 \<Rightarrow> Cpu option" where
  "v_set cpu n b = (if n < 64 then Some (cpu\<lparr>cpu_v := (cpu_v cpu)(n := b)\<rparr>) else None)"

definition stack_get :: "Cpu \<Rightarrow> nat \<Rightarrow> u16 option" where
  "stack_get cpu n = (if n < 16 then Some (cpu_stack cpu n) else None)"

definition stack_set :: "Cpu \<Rightarrow> nat \<Rightarrow> u16 \<Rightarrow> Cpu option" where
  "stack_set cpu n a = (if n < 16 then Some (cpu\<lparr>cpu_stack := (cpu_stack cpu)(n := a)\<rparr>) else None)"

text \<open>
  What a tick takes from outside the machine: the byte \<open>cpu.rand()\<close> returns, the
  value of \<open>time.Now()\<close> inside \<open>Fx15\<close>/\<open>Fx18\<close>, and the value of \<open>time.Now()\<close> after
  the instruction. Times are in nanoseconds.
\<close>

record Env =
  env_rand :: u8
  env_optime :: int
  env_now :: int

definition NewCpu :: "int \<Rightarrow> Cpu" where
  "NewCpu now =
     \<lparr>cpu_v = (\<lambda>n. 0), cpu_i = 0, cpu_stack = (\<lambda>n. 0), cpu_sp = 0, cpu_pc = 0x200,
      cpu_dt = 0, cpu_st = 0, cpu_lastd = now, cpu_lasts = now\<rparr>"

datatype Command = Next | Jump u16 | Skip

fun exec :: "Command \<Rightarrow> Cpu \<Rightarrow> Cpu" where
  "exec Next cpu = cpu\<lparr>cpu_pc := cpu_pc cpu + 2\<rparr>"
| "exec (Jump addr) cpu = cpu\<lparr>cpu_pc := addr\<rparr>"
| "exec Skip cpu = cpu\<lparr>cpu_pc := cpu_pc cpu + 4\<rparr>"

text \<open>The machine: the fields of \<open>Chip8\<close>. The audio player is the count of its \<open>Play\<close> calls.\<close>

record Chip8 =
  c8_cpu :: Cpu
  c8_mem :: Memory
  c8_vme :: VideoMemory
  c8_audio :: nat
  c8_kb :: Keyboard

subsection \<open>\<open>Cpu.Tick\<close>\<close>

text \<open>Case \<open>0x0\<close> of the outer switch: \<open>CLS\<close>, \<open>RET\<close>, \<open>SYS\<close>; nothing for other \<open>00..\<close>.\<close>

definition exec_0 :: "u8 \<Rightarrow> u8 \<Rightarrow> u8 \<Rightarrow> u16 \<Rightarrow> Chip8 \<Rightarrow> (Command option \<times> Chip8) option" where
  "exec_0 o2 o3 o4 nnn s =
     (if o2 = 0x0 then
        (if o3 = 0xE then
           (if o4 = 0x0 then Some (Some Next, s\<lparr>c8_vme := clear (c8_vme s)\<rparr>)
            else if o4 = 0xE then do {
              pc \<leftarrow> stack_get (c8_cpu s) (unat (cpu_sp (c8_cpu s) - 1));
              let cpu = (c8_cpu s)\<lparr>cpu_sp := cpu_sp (c8_cpu s) - 1\<rparr>;
              Some (Some (Jump (pc + 2)), s\<lparr>c8_cpu := cpu\<rparr>)
            }
            else Some (None, s))
         else Some (None, s))
      else Some (Some (Jump nnn), s))"

text \<open>Case \<open>0x8\<close>: the switch on \<open>o4\<close>; \<open>cmd = Next{}\<close> follows it whatever \<open>o4\<close> is.\<close>

definition exec_8 :: "u8 \<Rightarrow> u8 \<Rightarrow> u8 \<Rightarrow> u16 \<Rightarrow> u16 \<Rightarrow> Cpu \<Rightarrow> Cpu option" where
  "exec_8 x y o4 vx vy cpu =
     (if o4 = 0x0 then do { b \<leftarrow> v_get cpu (unat y); v_set cpu (unat x) b }
      else if o4 = 0x1 then do {
        a \<leftarrow> v_get cpu (unat x); b \<leftarrow> v_get cpu (unat y); v_set cpu (unat x) (a OR b) }
      else if o4 = 0x2 then do {
        a \<leftarrow> v_get cpu (unat x); b \<leftarrow> v_get cpu (unat y); v_set cpu (unat x) (a AND b) }
      else if o4 = 0x3 then do {
        a \<leftarrow> v_get cpu (unat x); b \<leftarrow> v_get cpu (unat y); v_set cpu (unat x) (a XOR b) }
      else if o4 = 0x4 then do {
        cpu \<leftarrow> v_set cpu 0xF (if vx + vy > 0xFF then 1 else 0);
        v_set cpu (unat x) (ucast ((vx + vy) AND 0xFF)) }
      else if o4 = 0x5 then do {
        cpu \<leftarrow> v_set cpu 0xF (if vx > vy then 1 else 0);
        v_set cpu (unat x) (ucast (vx - vy)) }
      else if o4 = 0x6 then do {
        cpu \<leftarrow> v_set cpu 0xF (ucast (vx AND 0x1));
        a \<leftarrow> v_get cpu (unat x);
        v_set cpu (unat x) (a div 2) }
      else if o4 = 0x7 then do {
        cpu \<leftarrow> v_set cpu 0xF (if vy > vx then 1 else 0);
        v_set cpu (unat x) (ucast (vy - vx)) }
      else if o4 = 0xE then do {
        a \<leftarrow> v_get cpu (unat x);
        cpu \<leftarrow> v_set cpu 0xF (drop_bit 7 a);
        a \<leftarrow> v_get cpu (unat x);
        v_set cpu (unat x) (a * 2) }
      else Some cpu)"

text \<open>The loop of \<open>Ex9E\<close> and \<open>ExA1\<close>: pop until the queue is empty.\<close>

function key_loop :: "u16 \<Rightarrow> Keyboard \<Rightarrow> bool \<Rightarrow> bool \<times> Keyboard" where
  "key_loop vx kb pressed =
     (case Pop kb of
        (None, kb') \<Rightarrow> (pressed, kb')
      | (Some key, kb') \<Rightarrow> key_loop vx kb' (if vx = key then True else pressed))"
  by pat_completeness auto
termination
  by (relation "measure (\<lambda>(vx, kb, pressed). length (kb_queue kb))")
     (auto simp: Pop_def split: if_splits)

definition exec_E :: "u8 \<Rightarrow> u16 \<Rightarrow> Keyboard \<Rightarrow> Command option \<times> Keyboard" where
  "exec_E o3 vx kb =
     (if o3 = 0x9 then
        (case key_loop vx kb False of
           (pressed, kb') \<Rightarrow> (if pressed then (Some Skip, kb') else (Some Next, kb')))
      else if o3 = 0xA then
        (case key_loop vx kb False of
           (pressed, kb') \<Rightarrow> (if \<not> pressed then (Some Skip, kb') else (Some Next, kb')))
      else (None, kb))"

text \<open>The loops of \<open>Fx55\<close> and \<open>Fx65\<close>: \<open>for n := 0; n <= int(x); n++\<close>.\<close>

function store_loop :: "nat \<Rightarrow> nat \<Rightarrow> Cpu \<Rightarrow> Memory \<Rightarrow> Memory option" where
  "store_loop n x cpu mem =
     (if n \<le> x then
        (case v_get cpu n of
           None \<Rightarrow> None
         | Some b \<Rightarrow>
             (case buf_set mem (unat (cpu_i cpu + of_nat n)) b of
                None \<Rightarrow> None
              | Some mem' \<Rightarrow> store_loop (Suc n) x cpu mem'))
      else Some mem)"
  by pat_completeness auto
termination
  by (relation "measure (\<lambda>(n, x, cpu, mem). Suc x - n)") auto

function load_loop :: "nat \<Rightarrow> nat \<Rightarrow> Cpu \<Rightarrow> Memory \<Rightarrow> Cpu option" where
  "load_loop n x cpu mem =
     (if n \<le> x then
        (case buf_get mem (unat (cpu_i cpu + of_nat n)) of
           None \<Rightarrow> None
         | Some b \<Rightarrow>
             (case v_set cpu n b of
                None \<Rightarrow> None
              | Some cpu' \<Rightarrow> load_loop (Suc n) x cpu' mem))
      else Some cpu)"
  by pat_completeness auto
termination
  by (relation "measure (\<lambda>(n, x, cpu, mem). Suc x - n)") auto

text \<open>Case \<open>0xF\<close>: the switch on \<open>o3\<close>, with inner switches on \<open>o4\<close> for \<open>o3\<close> 0 and 1 only.\<close>

definition exec_F :: "Env \<Rightarrow> u8 \<Rightarrow> u8 \<Rightarrow> u8 \<Rightarrow> u16 \<Rightarrow> Chip8 \<Rightarrow> (Command option \<times> Chip8) option" where
  "exec_F env x o3 o4 vx s =
     (let cpu = c8_cpu s; mem = c8_mem s in
      if o3 = 0x0 then
        (if o4 = 0x7 then do {
           cpu \<leftarrow> v_set cpu (unat x) (ucast (cpu_dt cpu));
           Some (Some Next, s\<lparr>c8_cpu := cpu\<rparr>) }
         else if o4 = 0xA then
           (case Pop (c8_kb s) of
              (Some key, kb') \<Rightarrow> do {
                cpu \<leftarrow> v_set cpu (unat x) (ucast key);
                Some (Some Next, s\<lparr>c8_cpu := cpu, c8_kb := kb'\<rparr>) }
            | (None, kb') \<Rightarrow> Some (None, s\<lparr>c8_kb := kb'\<rparr>))
         else Some (None, s))
      else if o3 = 0x1 then
        (if o4 = 0x5 then
           Some (Some Next, s\<lparr>c8_cpu := cpu\<lparr>cpu_dt := vx, cpu_lastd := env_optime env\<rparr>\<rparr>)
         else if o4 = 0x8 then
           Some (Some Next, s\<lparr>c8_cpu := cpu\<lparr>cpu_st := vx, cpu_lasts := env_optime env\<rparr>\<rparr>)
         else if o4 = 0xE then
           Some (Some Next, s\<lparr>c8_cpu := cpu\<lparr>cpu_i := cpu_i cpu + vx\<rparr>\<rparr>)
         else Some (None, s))
      else if o3 = 0x2 then
        Some (Some Next, s\<lparr>c8_cpu := cpu\<lparr>cpu_i := vx * 5\<rparr>\<rparr>)
      else if o3 = 0x3 then do {
        mem \<leftarrow> buf_set mem (unat (cpu_i cpu)) ((ucast vx div 100) mod 10);
        mem \<leftarrow> buf_set mem (unat (cpu_i cpu + 1)) ((ucast vx div 10) mod 10);
        mem \<leftarrow> buf_set mem (unat (cpu_i cpu + 2)) (ucast vx mod 10);
        Some (Some Next, s\<lparr>c8_mem := mem\<rparr>) }
      else if o3 = 0x5 then do {
        mem \<leftarrow> store_loop 0 (unat x) cpu mem;
        Some (Some Next, s\<lparr>c8_mem := mem\<rparr>) }
      else if o3 = 0x6 then do {
        cpu \<leftarrow> load_loop 0 (unat x) cpu mem;
        Some (Some Next, s\<lparr>c8_cpu := cpu\<rparr>) }
      else Some (None, s))"

text \<open>
  The outer switch on \<open>o1\<close>, after the operands are computed. It returns \<open>cmd\<close>
  (\<open>None\<close> is the \<open>nil\<close> interface value) and the machine as the case left it.
\<close>

definition execute :: "Env \<Rightarrow> u8 \<Rightarrow> u8 \<Rightarrow> u8 \<Rightarrow> u8 \<Rightarrow> Chip8 \<Rightarrow> (Command option \<times> Chip8) option" where
  "execute env o1 o2 o3 o4 s = do {
     let cpu = c8_cpu s;
     let nnn = push_bit 8 (ucast o2 :: u16) + push_bit 4 (ucast o3 :: u16) + (ucast o4 :: u16);
     let kk = push_bit 4 o3 + o4;
     let x = o2;
     let y = o3;
     vx8 \<leftarrow> v_get cpu (unat o2);
     vy8 \<leftarrow> v_get cpu (unat o3);
     let vx = (ucast vx8 :: u16);
     let vy = (ucast vy8 :: u16);
     if o1 = 0x0 then exec_0 o2 o3 o4 nnn s
     else if o1 = 0x1 then Some (Some (Jump nnn), s)
     else if o1 = 0x2 then do {
       cpu \<leftarrow> stack_set cpu (unat (cpu_sp cpu)) (cpu_pc cpu);
       Some (Some (Jump nnn), s\<lparr>c8_cpu := cpu\<lparr>cpu_sp := cpu_sp cpu + 1\<rparr>\<rparr>) }
     else if o1 = 0x3 then Some (if vx = ucast kk then Some Skip else Some Next, s)
     else if o1 = 0x4 then Some (if vx \<noteq> ucast kk then Some Skip else Some Next, s)
     else if o1 = 0x5 then Some (if vx = vy then Some Skip else Some Next, s)
     else if o1 = 0x6 then do {
       cpu \<leftarrow> v_set cpu (unat x) kk;
       Some (Some Next, s\<lparr>c8_cpu := cpu\<rparr>) }
     else if o1 = 0x7 then do {
       a \<leftarrow> v_get cpu (unat x);
       cpu \<leftarrow> v_set cpu (unat x) (a + kk);
       Some (Some Next, s\<lparr>c8_cpu := cpu\<rparr>) }
     else if o1 = 0x8 then do {
       cpu \<leftarrow> exec_8 x y o4 vx vy cpu;
       Some (Some Next, s\<lparr>c8_cpu := cpu\<rparr>) }
     else if o1 = 0x9 then Some (if vx \<noteq> vy then Some Skip else Some Next, s)
     else if o1 = 0xA then Some (Some Next, s\<lparr>c8_cpu := cpu\<lparr>cpu_i := nnn\<rparr>\<rparr>)
     else if o1 = 0xB then do {
       v0 \<leftarrow> v_get cpu 0;
       Some (Some (Jump (nnn + ucast v0)), s) }
     else if o1 = 0xC then do {
       cpu \<leftarrow> v_set cpu (unat x) (env_rand env AND kk);
       Some (Some Next, s\<lparr>c8_cpu := cpu\<rparr>) }
     else if o1 = 0xD then do {
       bytes \<leftarrow> buf_slice (c8_mem s) (unat (cpu_i cpu)) (unat (cpu_i cpu + ucast o4));
       (vf, vme) \<leftarrow> draw (c8_vme s) vx vy bytes;
       cpu \<leftarrow> v_set cpu 0xF vf;
       Some (Some Next, s\<lparr>c8_cpu := cpu, c8_vme := vme\<rparr>) }
     else if o1 = 0xE then
       (case exec_E o3 vx (c8_kb s) of (cmd, kb) \<Rightarrow> Some (cmd, s\<lparr>c8_kb := kb\<rparr>))
     else if o1 = 0xF then exec_F env x o3 o4 vx s
     else Some (None, s)
   }"

text \<open>
  The two timer blocks at the end of \<open>Tick\<close>. \<open>elapsed.Seconds() > 1.0/60\<close> compares a
  whole number of nanoseconds with a sixtieth of a second: it holds from 16666667 ns on.
\<close>

definition sixtieth_passed :: "int \<Rightarrow> bool" where
  "sixtieth_passed elapsed = (elapsed > 16666666)"

definition timers :: "Env \<Rightarrow> Chip8 \<Rightarrow> Chip8" where
  "timers env s =
     (let now = env_now env;
          cpu = c8_cpu s;
          cpu = (if sixtieth_passed (now - cpu_lastd cpu) \<and> cpu_dt cpu > 0
                 then cpu\<lparr>cpu_dt := cpu_dt cpu - 1, cpu_lastd := now\<rparr> else cpu)
      in if sixtieth_passed (now - cpu_lasts cpu) \<and> cpu_st cpu > 0
         then s\<lparr>c8_cpu := cpu\<lparr>cpu_st := cpu_st cpu - 1, cpu_lasts := now\<rparr>,
                c8_audio := Suc (c8_audio s)\<rparr>
         else s\<lparr>c8_cpu := cpu\<rparr>)"

text \<open>The four nibbles \<open>o1 o2 o3 o4\<close> read at \<open>cpu.pc\<close> and \<open>cpu.pc+1\<close>.\<close>

definition fetch :: "Chip8 \<Rightarrow> (u8 \<times> u8 \<times> u8 \<times> u8) option" where
  "fetch s = do {
     b0 \<leftarrow> buf_get (c8_mem s) (unat (cpu_pc (c8_cpu s)));
     b1 \<leftarrow> buf_get (c8_mem s) (unat (cpu_pc (c8_cpu s) + 1));
     Some (drop_bit 4 b0, b0 AND 0x0F, drop_bit 4 b1, b1 AND 0x0F)
   }"

text \<open>
  The first part of \<open>Tick\<close>, up to the end of the switch: the command it leaves in
  \<open>cmd\<close> and the machine at that point.
\<close>

definition instr :: "Env \<Rightarrow> Chip8 \<Rightarrow> (Command option \<times> Chip8) option" where
  "instr env s = do {
     (o1, o2, o3, o4) \<leftarrow> fetch s;
     execute env o1 o2 o3 o4 s
   }"

text \<open>
  \<open>Cpu.Tick\<close>: \<open>None\<close> when the Go runtime panics, otherwise the returned \<open>error\<close>
  (the source's only \<open>return\<close> is \<open>return nil\<close>) and the machine after the tick.
\<close>

definition Tick :: "Env \<Rightarrow> Chip8 \<Rightarrow> (error \<times> Chip8) option" where
  "Tick env s = do {
     (cmd, s) \<leftarrow> instr env s;
     let s = (case cmd of None \<Rightarrow> s | Some c \<Rightarrow> s\<lparr>c8_cpu := exec c (c8_cpu s)\<rparr>);
     Some (None, timers env s)
   }"

text \<open>
  \<open>Chip8.Update\<close>: the pressed keys are queued, then one tick runs. A run of the
  machine is a sequence of updates; it goes on while \<open>Tick\<close> neither panics nor
  returns an error (\<open>log.Fatal\<close> ends the process).
\<close>

definition Update :: "int list \<times> Env \<Rightarrow> Chip8 \<Rightarrow> (error \<times> Chip8) option" where
  "Update inp s = Tick (snd inp) (s\<lparr>c8_kb := kb_Update (fst inp) (c8_kb s)\<rparr>)"

fun run :: "(int list \<times> Env) list \<Rightarrow> Chip8 \<Rightarrow> Chip8 option" where
  "run [] s = Some s"
| "run (inp # inps) s =
     (case Update inp s of
        Some (None, s') \<Rightarrow> run inps s'
      | _ \<Rightarrow> None)"

text \<open>The machine as \<open>main\<close> builds it, with the chosen ROM loaded.\<close>

definition boot :: "int \<Rightarrow> u8 list \<Rightarrow> Chip8" where
  "boot now img =
     \<lparr>c8_cpu = NewCpu now, c8_mem = snd (Load (Some img) NewMemory),
      c8_vme = NewVideoMemory, c8_audio = 0, c8_kb = NewKeyboard\<rparr>"

section \<open>Notions used to state the properties\<close>

text \<open>
  The bit that a sprite drawn with its top-left corner at \<open>(X, Y)\<close> puts on the pixel
  \<open>(px, py)\<close>: bit \<open>7 - (px - X)\<close> of row \<open>py - Y\<close> inside the sprite's 8-wide rectangle,
  0 outside it.
\<close>

definition sprite_bit :: "u8 list \<Rightarrow> nat \<Rightarrow> nat \<Rightarrow> nat \<Rightarrow> nat \<Rightarrow> u8" where
  "sprite_bit buf X Y px py =
     (if X \<le> px \<and> px < X + 8 \<and> Y \<le> py \<and> py < Y + length buf
      then drop_bit (7 - (px - X)) (buf ! (py - Y)) AND 1 else 0)"

text \<open>The number of collisions of one sprite row, and of a whole sprite, with a plane.\<close>

definition row_hits :: "(nat \<Rightarrow> nat \<Rightarrow> u8) \<Rightarrow> nat \<Rightarrow> nat \<Rightarrow> u8 \<Rightarrow> nat" where
  "row_hits p X Y byte = (\<Sum>k<8. if p (X + k) Y = 1 \<and> drop_bit (7 - k) byte AND 1 = 1 then 1 else 0)"

fun hits :: "(nat \<Rightarrow> nat \<Rightarrow> u8) \<Rightarrow> nat \<Rightarrow> nat \<Rightarrow> u8 list \<Rightarrow> nat" where
  "hits p X Y [] = 0"
| "hits p X Y (byte # rest) = row_hits p X Y byte + hits p X (Suc Y) rest"

text \<open>
  Two machines are the same but for the program counter, the timers and the audio
  player: registers, index, stack, memory, video memory and key queue agree.
\<close>

definition same_machine :: "Chip8 \<Rightarrow> Chip8 \<Rightarrow> bool" where
  "same_machine s s' \<longleftrightarrow>
     cpu_v (c8_cpu s') = cpu_v (c8_cpu s) \<and> cpu_i (c8_cpu s') = cpu_i (c8_cpu s) \<and>
     cpu_stack (c8_cpu s') = cpu_stack (c8_cpu s) \<and> cpu_sp (c8_cpu s') = cpu_sp (c8_cpu s) \<and>
     c8_mem s' = c8_mem s \<and> c8_vme s' = c8_vme s \<and> c8_kb s' = c8_kb s"

text \<open>An environment for the examples: no time passes, the random byte is 0.\<close>

definition env0 :: Env where
  "env0 = \<lparr>env_rand = 0, env_optime = 0, env_now = 0\<rparr>"

text \<open>
  The font table of the specification (section 6), one five-byte glyph per hex digit,
  and the five bytes of memory at I.
\<close>

definition normative_font :: "u8 list list" where
  "normative_font =
    [[0xF0, 0x90, 0x90, 0x90, 0xF0], [0x20, 0x60, 0x20, 0x20, 0x70],
     [0xF0, 0x10, 0xF0, 0x80, 0xF0], [0xF0, 0x10, 0xF0, 0x10, 0xF0],
     [0x90, 0x90, 0xF0, 0x10, 0x10], [0xF0, 0x80, 0xF0, 0x10, 0xF0],
     [0xF0, 0x80, 0xF0, 0x90, 0xF0], [0xF0, 0x10, 0x20, 0x40, 0x40],
     [0xF0, 0x90, 0xF0, 0x90, 0xF0], [0xF0, 0x90, 0xF0, 0x10, 0xF0],
     [0xF0, 0x90, 0xF0, 0x90, 0x90], [0xE0, 0x90, 0xE0, 0x90, 0xE0],
     [0xF0, 0x80, 0x80, 0x80, 0xF0], [0xE0, 0x90, 0x90, 0x90, 0xE0],
     [0xF0, 0x80, 0xF0, 0x80, 0xF0], [0xF0, 0x80, 0xF0, 0x80, 0x80]]"

definition glyph_at :: "Chip8 \<Rightarrow> u8 list" where
  "glyph_at s =
     (let a = unat (cpu_i (c8_cpu s)); m = mem_buf (c8_mem s)
      in [m a, m (a + 1), m (a + 2), m (a + 3), m (a + 4)])"

text \<open>
  A ROM that jumps to 0xFFC, where it holds \<open>3000\<close> (skip if V0 = 0), and the machine
  it reaches after that jump.
\<close>

definition edge_rom :: "u8 list" where
  "edge_rom = [0x1F, 0xFC] @ replicate 3578 0 @ [0x30, 0x00]"

definition edge_machine :: Chip8 where
  "edge_machine = (boot 0 edge_rom)\<lparr>c8_cpu := (NewCpu 0)\<lparr>cpu_pc := 0xFFC\<rparr>\<rparr>"

text \<open>A machine about to run \<open>F155 F165\<close> with V0 = 0xAB, V1 = 0xCD and I = 0x300.\<close>

definition store_machine :: Chip8 where
  "store_machine =
     (boot 0 [0xF1, 0x55, 0xF1, 0x65])
       \<lparr>c8_cpu := (NewCpu 0)\<lparr>cpu_v := (\<lambda>n. if n = 0 then 0xAB else 0xCD), cpu_i := 0x300\<rparr>\<rparr>"

text \<open>The blank pending plane with the pixel (0, 0) turned on.\<close>

definition lit_plane :: VideoMemory where
  "lit_plane = \<lparr>vme_buf = (\<lambda>x y. if x = 0 \<and> y = 0 then 1 else 0), vme_mem = (\<lambda>x y. 0)\<rparr>"

text \<open>
  The equations of the loops are used one step at a time in the proofs, not as
  rewrite rules.
\<close>

declare key_loop.simps [simp del] store_loop.simps [simp del] load_loop.simps [simp del]

section \<open>Facts about the model\<close>

lemma unat_nib_lo: "unat ((b::u8) AND 0x0F) < 16"
proof -
  have "b AND 0x0F = take_bit 4 b" by (simp add: take_bit_eq_mask mask_eq_exp_minus_1)
  then have "unat (b AND 0x0F) = take_bit 4 (unat b)" by (simp add: unsigned_take_bit_eq)
  also have "\<dots> < 2 ^ 4" by (rule take_bit_nat_less_exp)
  finally show ?thesis by simp
qed

lemma unat_nib_hi: "unat (drop_bit 4 (b::u8)) < 16"
proof -
  have "unat b < 2 ^ LENGTH(8)" by (rule unsigned_less)
  then show ?thesis unfolding unat_drop_bit_eq by (simp add: drop_bit_eq_div)
qed

lemma fetch_nibbles:
  "fetch s = Some (o1, o2, o3, o4) \<Longrightarrow> unat o1 < 16 \<and> unat o2 < 16 \<and> unat o3 < 16 \<and> unat o4 < 16"
  by (auto simp: fetch_def unat_nib_lo unat_nib_hi split: bind_splits)

lemma fetch_Some_iff:
  "fetch s = Some q \<longleftrightarrow>
     unat (cpu_pc (c8_cpu s)) < MEM_SIZE \<and> unat (cpu_pc (c8_cpu s) + 1) < MEM_SIZE \<and>
     q = (drop_bit 4 (mem_buf (c8_mem s) (unat (cpu_pc (c8_cpu s)))),
          mem_buf (c8_mem s) (unat (cpu_pc (c8_cpu s))) AND 0x0F,
          drop_bit 4 (mem_buf (c8_mem s) (unat (cpu_pc (c8_cpu s) + 1))),
          mem_buf (c8_mem s) (unat (cpu_pc (c8_cpu s) + 1)) AND 0x0F)"
  by (auto simp: fetch_def buf_get_def split: bind_splits)



lemma v_set_Some:
  "v_set cpu n b = Some cpu' \<longleftrightarrow> n < 64 \<and> cpu' = cpu\<lparr>cpu_v := (cpu_v cpu)(n := b)\<rparr>"
  by (auto simp: v_set_def)

lemma v_get_Some: "v_get cpu n = Some b \<longleftrightarrow> n < 64 \<and> b = cpu_v cpu n"
  by (auto simp: v_get_def)

lemma stack_set_Some:
  "stack_set cpu n a = Some cpu' \<longleftrightarrow> n < 16 \<and> cpu' = cpu\<lparr>cpu_stack := (cpu_stack cpu)(n := a)\<rparr>"
  by (auto simp: stack_set_def)

lemma stack_get_Some: "stack_get cpu n = Some a \<longleftrightarrow> n < 16 \<and> a = cpu_stack cpu n"
  by (auto simp: stack_get_def)

lemma buf_set_Some:
  "buf_set mem a b = Some mem' \<longleftrightarrow> a < MEM_SIZE \<and> mem' = mem\<lparr>mem_buf := (mem_buf mem)(a := b)\<rparr>"
  by (auto simp: buf_set_def)

lemma buf_get_Some: "buf_get mem a = Some b \<longleftrightarrow> a < MEM_SIZE \<and> b = mem_buf mem a"
  by (auto simp: buf_get_def)

lemma exec_8_frame: "exec_8 x y o4 vx vy cpu = Some cpu' \<Longrightarrow> cpu' = cpu\<lparr>cpu_v := cpu_v cpu'\<rparr>"
  unfolding exec_8_def
  by (auto simp: v_set_Some v_get_Some split: if_splits bind_splits)

lemma load_loop_frame: "load_loop n x cpu mem = Some cpu' \<Longrightarrow> cpu' = cpu\<lparr>cpu_v := cpu_v cpu'\<rparr>"
proof (induction n x cpu mem rule: load_loop.induct)
  case (1 n x cpu mem)
  show ?case
  proof (cases "n \<le> x")
    case False
    with "1.prems" have "cpu' = cpu" by (simp add: load_loop.simps [of n])
    then show ?thesis by simp
  next
    case True
    with "1.prems" obtain b c where b: "buf_get mem (unat (cpu_i cpu + of_nat n)) = Some b"
      and c: "v_set cpu n b = Some c" and l: "load_loop (Suc n) x c mem = Some cpu'"
      by (auto simp: load_loop.simps [of n] split: option.splits)
    from "1.IH" [OF True b c l] have "cpu' = c\<lparr>cpu_v := cpu_v cpu'\<rparr>" .
    with c show ?thesis by (auto simp: v_set_Some)
  qed
qed

lemma key_loop_frame: "key_loop vx kb p = (q, kb') \<Longrightarrow> kb_queue kb' = []"
proof (induction vx kb p rule: key_loop.induct)
  case (1 vx kb pressed)
  show ?case
  proof (cases "kb_queue kb")
    case Nil
    with "1.prems" show ?thesis by (simp add: key_loop.simps [of vx kb] Pop_def)
  next
    case (Cons k ks)
    then have P: "Pop kb = (Some k, kb\<lparr>kb_queue := ks\<rparr>)" by (simp add: Pop_def)
    with "1.prems" have "key_loop vx (kb\<lparr>kb_queue := ks\<rparr>) (if vx = k then True else pressed) = (q, kb')"
      by (simp add: key_loop.simps [of vx kb])
    with "1.IH" [OF P [symmetric] refl] show ?thesis by simp
  qed
qed

lemma exec_8_fields:
  assumes "exec_8 x y o4 vx vy cpu = Some cpu'"
  shows "cpu_pc cpu' = cpu_pc cpu" "cpu_i cpu' = cpu_i cpu" "cpu_sp cpu' = cpu_sp cpu"
    "cpu_stack cpu' = cpu_stack cpu"
  using exec_8_frame [OF assms, THEN arg_cong, of cpu_pc]
    exec_8_frame [OF assms, THEN arg_cong, of cpu_i]
    exec_8_frame [OF assms, THEN arg_cong, of cpu_sp]
    exec_8_frame [OF assms, THEN arg_cong, of cpu_stack]
  by simp_all

lemma load_loop_fields:
  assumes "load_loop n x cpu mem = Some cpu'"
  shows "cpu_pc cpu' = cpu_pc cpu" "cpu_i cpu' = cpu_i cpu" "cpu_sp cpu' = cpu_sp cpu"
    "cpu_stack cpu' = cpu_stack cpu"
  using load_loop_frame [OF assms, THEN arg_cong, of cpu_pc]
    load_loop_frame [OF assms, THEN arg_cong, of cpu_i]
    load_loop_frame [OF assms, THEN arg_cong, of cpu_sp]
    load_loop_frame [OF assms, THEN arg_cong, of cpu_stack]
  by simp_all

lemma exec_0_pc: "exec_0 o2 o3 o4 nnn s = Some (cmd, s') \<Longrightarrow> cpu_pc (c8_cpu s') = cpu_pc (c8_cpu s)"
  by (auto simp: exec_0_def split: if_splits bind_splits)

lemma exec_F_pc: "exec_F env x o3 o4 vx s = Some (cmd, s') \<Longrightarrow> cpu_pc (c8_cpu s') = cpu_pc (c8_cpu s)"
  by (auto simp: exec_F_def Let_def v_set_Some load_loop_fields
           split: if_splits bind_splits prod.splits option.splits)

lemma execute_pc: "execute env o1 o2 o3 o4 s = Some (cmd, s') \<Longrightarrow> cpu_pc (c8_cpu s') = cpu_pc (c8_cpu s)"
  unfolding execute_def Let_def
  by (auto simp: v_set_Some stack_set_Some exec_8_fields exec_0_pc exec_F_pc
           split: if_splits bind_splits prod.splits)

lemma instr_pc: "instr env s = Some (cmd, s') \<Longrightarrow> cpu_pc (c8_cpu s') = cpu_pc (c8_cpu s)"
  by (auto simp: instr_def execute_pc split: bind_splits)

lemma timers_pc: "cpu_pc (c8_cpu (timers env s)) = cpu_pc (c8_cpu s)"
  by (simp add: timers_def Let_def)

lemma draw_pixcel_Some:
  "unat x < 64 \<Longrightarrow> unat y < 32 \<Longrightarrow>
   draw_pixcel vme x y new =
     Some (if vme_buf vme (unat x) (unat y) = 1 \<and> new = 1 then 1 else 0,
           vme\<lparr>vme_buf := (vme_buf vme)
                 (unat x := (vme_buf vme (unat x))
                    (unat y := vme_buf vme (unat x) (unat y) XOR new))\<rparr>)"
  by (simp add: draw_pixcel_def H_PIXELS_def V_PIXELS_def)

lemma draw_pixcel_None:
  "\<not> (unat x < 64 \<and> unat y < 32) \<Longrightarrow> draw_pixcel vme x y new = None"
  by (simp add: draw_pixcel_def H_PIXELS_def V_PIXELS_def)

lemma unat_add_small: "unat (x :: u16) + k < 65536 \<Longrightarrow> unat (x + of_nat k) = unat x + k"
  by (simp add: unat_word_ariths unat_of_nat)

lemma unat_add_nums:
  fixes x :: u16
  assumes "unat x + 7 < 64"
  shows "unat (x + 1) = unat x + 1" "unat (x + 2) = unat x + 2" "unat (x + 3) = unat x + 3"
    "unat (x + 4) = unat x + 4" "unat (x + 5) = unat x + 5" "unat (x + 6) = unat x + 6"
    "unat (x + 7) = unat x + 7"
  using assms unat_add_small [of x 1] unat_add_small [of x 2] unat_add_small [of x 3]
    unat_add_small [of x 4] unat_add_small [of x 5] unat_add_small [of x 6] unat_add_small [of x 7]
  by simp_all

lemma row_hits_unfold:
  "row_hits p X Y byte =
     (if p X Y = 1 \<and> drop_bit 7 byte AND 1 = 1 then 1 else 0) +
     (if p (X + 1) Y = 1 \<and> drop_bit 6 byte AND 1 = 1 then 1 else 0) +
     (if p (X + 2) Y = 1 \<and> drop_bit 5 byte AND 1 = 1 then 1 else 0) +
     (if p (X + 3) Y = 1 \<and> drop_bit 4 byte AND 1 = 1 then 1 else 0) +
     (if p (X + 4) Y = 1 \<and> drop_bit 3 byte AND 1 = 1 then 1 else 0) +
     (if p (X + 5) Y = 1 \<and> drop_bit 2 byte AND 1 = 1 then 1 else 0) +
     (if p (X + 6) Y = 1 \<and> drop_bit 1 byte AND 1 = 1 then 1 else 0) +
     (if p (X + 7) Y = 1 \<and> byte AND 1 = 1 then 1 else 0)"
proof -
  have "{..<8::nat} = {0, 1, 2, 3, 4, 5, 6, 7}" by auto
  then show ?thesis by (simp add: row_hits_def)
qed

lemma sprite_bit_row:
  "sprite_bit [byte] X Y px py =
     (if py = Y then
        (if px = X then drop_bit 7 byte AND 1
         else if px = X + 1 then drop_bit 6 byte AND 1
         else if px = X + 2 then drop_bit 5 byte AND 1
         else if px = X + 3 then drop_bit 4 byte AND 1
         else if px = X + 4 then drop_bit 3 byte AND 1
         else if px = X + 5 then drop_bit 2 byte AND 1
         else if px = X + 6 then drop_bit 1 byte AND 1
         else if px = X + 7 then byte AND 1
         else 0)
      else 0)"
proof -
  have "X \<le> px \<and> px < X + 8 \<longleftrightarrow>
        px = X \<or> px = X + 1 \<or> px = X + 2 \<or> px = X + 3 \<or> px = X + 4 \<or> px = X + 5 \<or> px = X + 6 \<or> px = X + 7"
    by arith
  then show ?thesis
    by (auto simp: sprite_bit_def)
qed

lemma draw_row_Some:
  assumes "unat x + 7 < 64" "unat yi < 32"
  shows "draw_row vme x yi byte vf =
    Some (vf + of_nat (row_hits (vme_buf vme) (unat x) (unat yi) byte),
          vme\<lparr>vme_buf := (\<lambda>px py. vme_buf vme px py XOR sprite_bit [byte] (unat x) (unat yi) px py)\<rparr>)"
proof -
  have vf: "\<And>P. word_of_nat (if P then Suc 0 else 0) = (if P then 1 else 0 :: u16)" by simp
  have plane: "\<And>f g. f = g \<Longrightarrow> vme\<lparr>vme_buf := f\<rparr> = vme\<lparr>vme_buf := g\<rparr>" by simp
  show ?thesis
    using assms
    unfolding draw_row_def
    apply (simp add: draw_pixcel_def H_PIXELS_def V_PIXELS_def unat_add_nums row_hits_unfold
        split del: if_split cong: if_cong)
     apply (simp add: vf split del: if_split cong: if_cong)
    apply (rule plane)
    apply (rule ext, rule ext)
    apply (simp add: sprite_bit_row)
    done
qed

lemma draw_row_None:
  assumes "\<not> (unat x + 7 < 64 \<and> unat yi < 32)"
  shows "draw_row vme x yi byte vf = None"
proof (cases "unat x < 64 \<and> unat yi < 32")
  case False
  then have "draw_pixcel vme x yi (drop_bit 7 byte AND 0x1) = None"
    by (rule draw_pixcel_None)
  then show ?thesis unfolding draw_row_def by (simp only: Option.bind.simps)
next
  case True
  then have y: "unat yi < 32" by simp
  from True assms have "unat x = 57 \<or> unat x = 58 \<or> unat x = 59 \<or> unat x = 60 \<or>
      unat x = 61 \<or> unat x = 62 \<or> unat x = 63" by arith
  moreover have "\<And>n. unat x = n \<Longrightarrow> x = of_nat n" by auto
  ultimately consider "x = 57" | "x = 58" | "x = 59" | "x = 60" | "x = 61" | "x = 62" | "x = 63"
    by fastforce
  then show ?thesis
    using y
    by cases
      (simp_all add: draw_row_def draw_pixcel_def H_PIXELS_def V_PIXELS_def
        split del: if_split cong: if_cong)
qed

lemma sprite_bit_Nil: "sprite_bit [] X Y px py = 0"
  by (auto simp: sprite_bit_def)

lemma sprite_bit_Cons:
  "sprite_bit (byte # rest) X Y px py =
     sprite_bit [byte] X Y px py XOR sprite_bit rest X (Suc Y) px py"
proof -
  have "py > Y \<Longrightarrow> (byte # rest) ! (py - Y) = rest ! (py - Suc Y)"
    by (simp add: nth_Cons')
  then show ?thesis
    by (cases "py = Y"; cases "py < Y") (auto simp: sprite_bit_def)
qed

lemma sprite_bit_row_other: "py \<noteq> Y \<Longrightarrow> sprite_bit [byte] X Y px py = 0"
  by (auto simp: sprite_bit_def)

lemma row_hits_agree: "(\<And>px. p px Y = q px Y) \<Longrightarrow> row_hits p X Y byte = row_hits q X Y byte"
  by (simp add: row_hits_def)

lemma hits_agree:
  "(\<And>px py. Y \<le> py \<Longrightarrow> p px py = q px py) \<Longrightarrow> hits p X Y bs = hits q X Y bs"
proof (induction bs arbitrary: Y)
  case Nil
  show ?case by simp
next
  case (Cons b bs)
  have "row_hits p X Y b = row_hits q X Y b"
    by (rule row_hits_agree) (simp add: Cons.prems)
  moreover have "hits p X (Suc Y) bs = hits q X (Suc Y) bs"
    by (rule Cons.IH) (simp add: Cons.prems)
  ultimately show ?case by simp
qed

lemma draw_loop_char:
  assumes "unat y + i < 65536"
  shows "draw_loop vme x y i rest vf =
    (if rest = [] \<or> (unat x + 7 < 64 \<and> unat y + i + length rest \<le> 32)
     then Some (vf + of_nat (hits (vme_buf vme) (unat x) (unat y + i) rest),
                vme\<lparr>vme_buf := (\<lambda>px py. vme_buf vme px py XOR
                                     sprite_bit rest (unat x) (unat y + i) px py)\<rparr>)
     else None)"
  using assms
proof (induction rest arbitrary: vme i vf)
  case Nil
  show ?case by (simp add: sprite_bit_Nil)
next
  case (Cons byte rest)
  let ?yi = "y + of_nat i"
  have yi: "unat ?yi = unat y + i" using Cons.prems by (rule unat_add_small)
  show ?case
  proof (cases "unat x + 7 < 64 \<and> unat y + i < 32")
    case False
    then have "draw_row vme x ?yi byte vf = None"
      by (intro draw_row_None) (simp add: yi)
    with False show ?thesis by auto
  next
    case True
    let ?vme1 = "vme\<lparr>vme_buf := (\<lambda>px py. vme_buf vme px py XOR
                   sprite_bit [byte] (unat x) (unat y + i) px py)\<rparr>"
    let ?vf1 = "vf + of_nat (row_hits (vme_buf vme) (unat x) (unat y + i) byte)"
    from True have row: "draw_row vme x ?yi byte vf = Some (?vf1, ?vme1)"
      using draw_row_Some [of x ?yi vme byte vf] by (simp add: yi)
    have next_ok: "unat y + Suc i < 65536" using True by simp
    have h: "hits (vme_buf ?vme1) (unat x) (Suc (unat y + i)) rest =
             hits (vme_buf vme) (unat x) (Suc (unat y + i)) rest"
      by (rule hits_agree) (simp add: sprite_bit_row_other)
    have p: "(\<lambda>px py. vme_buf ?vme1 px py XOR sprite_bit rest (unat x) (Suc (unat y + i)) px py) =
             (\<lambda>px py. vme_buf vme px py XOR sprite_bit (byte # rest) (unat x) (unat y + i) px py)"
      by (intro ext) (simp add: sprite_bit_Cons [of byte rest] xor.assoc)
    have "draw_loop vme x y i (byte # rest) vf = draw_loop ?vme1 x y (Suc i) rest ?vf1"
      by (simp add: row)
    also have "\<dots> =
      (if rest = [] \<or> (unat x + 7 < 64 \<and> unat y + Suc i + length rest \<le> 32)
       then Some (?vf1 + of_nat (hits (vme_buf ?vme1) (unat x) (unat y + Suc i) rest),
                  ?vme1\<lparr>vme_buf := (\<lambda>px py. vme_buf ?vme1 px py XOR
                                     sprite_bit rest (unat x) (unat y + Suc i) px py)\<rparr>)
       else None)"
      by (rule Cons.IH [OF next_ok])
    also have "\<dots> =
      (if unat x + 7 < 64 \<and> unat y + i + length (byte # rest) \<le> 32
       then Some (vf + of_nat (hits (vme_buf vme) (unat x) (unat y + i) (byte # rest)),
                  vme\<lparr>vme_buf := (\<lambda>px py. vme_buf vme px py XOR
                                     sprite_bit (byte # rest) (unat x) (unat y + i) px py)\<rparr>)
       else None)"
      using True h p by (auto simp: add.assoc)
    finally show ?thesis by simp
  qed
qed

lemma row_hits_le: "row_hits p X Y byte \<le> 8"
proof -
  have "row_hits p X Y byte \<le> (\<Sum>k<8::nat. 1)"
    unfolding row_hits_def by (rule sum_mono) simp
  then show ?thesis by simp
qed

lemma hits_le: "hits p X Y bs \<le> 8 * length bs"
proof (induction bs arbitrary: Y)
  case Nil
  show ?case by simp
next
  case (Cons b bs)
  from Cons.IH [of "Suc Y"] row_hits_le [of p X Y b] show ?case by simp
qed

lemma row_hits_0_iff:
  "row_hits p X Y byte = 0 \<longleftrightarrow> (\<forall>k<8. \<not> (p (X + k) Y = 1 \<and> drop_bit (7 - k) byte AND 1 = 1))"
  by (auto simp: row_hits_def)

lemma row_hits_pos_iff:
  "0 < row_hits p X Y byte \<longleftrightarrow> (\<exists>px py. p px py = 1 \<and> sprite_bit [byte] X Y px py = 1)"
proof
  assume "0 < row_hits p X Y byte"
  then obtain k where k: "k < 8" "p (X + k) Y = 1" "drop_bit (7 - k) byte AND 1 = 1"
    using row_hits_0_iff [of p X Y byte] by auto
  then have "sprite_bit [byte] X Y (X + k) Y = 1" by (simp add: sprite_bit_def)
  with k show "\<exists>px py. p px py = 1 \<and> sprite_bit [byte] X Y px py = 1" by blast
next
  assume "\<exists>px py. p px py = 1 \<and> sprite_bit [byte] X Y px py = 1"
  then obtain px py where a: "p px py = 1" "sprite_bit [byte] X Y px py = 1" by blast
  from a(2) have r: "py = Y" "X \<le> px" "px < X + 8"
    and b: "drop_bit (7 - (px - X)) byte AND 1 = 1"
    by (auto simp: sprite_bit_def split: if_splits)
  have "px - X < 8" "p (X + (px - X)) Y = 1" using a r by auto
  with b have "row_hits p X Y byte \<noteq> 0"
    unfolding row_hits_0_iff by blast
  then show "0 < row_hits p X Y byte" by simp
qed

lemma sprite_bit_Cons_eq_1:
  "sprite_bit (byte # rest) X Y px py = 1 \<longleftrightarrow>
     sprite_bit [byte] X Y px py = 1 \<or> sprite_bit rest X (Suc Y) px py = 1"
proof (cases "py = Y")
  case True
  then have "sprite_bit rest X (Suc Y) px py = 0" by (simp add: sprite_bit_def)
  then show ?thesis by (simp add: sprite_bit_Cons [of byte rest])
next
  case False
  then have "sprite_bit [byte] X Y px py = 0" by (rule sprite_bit_row_other)
  then show ?thesis by (simp add: sprite_bit_Cons [of byte rest])
qed

lemma hits_pos_iff:
  "0 < hits p X Y bs \<longleftrightarrow> (\<exists>px py. p px py = 1 \<and> sprite_bit bs X Y px py = 1)"
proof (induction bs arbitrary: Y)
  case Nil
  show ?case by (simp add: sprite_bit_Nil)
next
  case (Cons b bs)
  have "0 < hits p X Y (b # bs) \<longleftrightarrow> 0 < row_hits p X Y b \<or> 0 < hits p X (Suc Y) bs"
    by auto
  then show ?case
    unfolding Cons.IH row_hits_pos_iff sprite_bit_Cons_eq_1 [of b bs] by blast
qed

lemma word_of_nat_pos: "n < 65536 \<Longrightarrow> (0 :: u16) < of_nat n \<longleftrightarrow> 0 < n"
  using dvd_imp_le [of 65536 n] by (cases "n = 0") (auto simp: word_gt_0 word_of_nat_eq_0_iff)

lemma draw_char:
  "draw vme x y buf =
    (if buf = [] \<or> (unat x + 7 < 64 \<and> unat y + length buf \<le> 32)
     then Some (if \<exists>px py. vme_buf vme px py = 1 \<and> sprite_bit buf (unat x) (unat y) px py = 1
                then 1 else 0,
                vme\<lparr>vme_buf := (\<lambda>px py. vme_buf vme px py XOR
                                     sprite_bit buf (unat x) (unat y) px py)\<rparr>)
     else None)"
proof -
  have y: "unat y + 0 < 65536" using unsigned_less [of y, where 'a = nat] by simp
  show ?thesis
  proof (cases "buf = [] \<or> (unat x + 7 < 64 \<and> unat y + length buf \<le> 32)")
    case False
    then show ?thesis by (simp add: draw_def draw_loop_char [OF y])
  next
    case True
    then have "length buf \<le> 32" by auto
    with hits_le [of "vme_buf vme" "unat x" "unat y" buf]
    have "hits (vme_buf vme) (unat x) (unat y) buf < 65536" by simp
    then have "(0 :: u16) < of_nat (hits (vme_buf vme) (unat x) (unat y) buf) \<longleftrightarrow>
        (\<exists>px py. vme_buf vme px py = 1 \<and> sprite_bit buf (unat x) (unat y) px py = 1)"
      by (simp add: word_of_nat_pos hits_pos_iff)
    with True show ?thesis by (simp add: draw_def draw_loop_char [OF y])
  qed
qed

lemma draw_vme_mem: "draw vme x y buf = Some (vf, vme') \<Longrightarrow> vme_mem vme' = vme_mem vme"
  by (auto simp: draw_char split: if_splits)

lemma exec_0_vme_mem:
  "exec_0 o2 o3 o4 nnn s = Some (cmd, s') \<Longrightarrow> vme_mem (c8_vme s') = vme_mem (c8_vme s)"
  by (auto simp: exec_0_def clear_def split: if_splits bind_splits)

lemma exec_F_vme: "exec_F env x o3 o4 vx s = Some (cmd, s') \<Longrightarrow> c8_vme s' = c8_vme s"
  by (auto simp: exec_F_def Let_def split: if_splits bind_splits prod.splits option.splits)

lemma execute_vme_mem:
  "execute env o1 o2 o3 o4 s = Some (cmd, s') \<Longrightarrow> vme_mem (c8_vme s') = vme_mem (c8_vme s)"
  unfolding execute_def Let_def
  by (auto simp: exec_0_vme_mem exec_F_vme draw_vme_mem
           split: if_splits bind_splits prod.splits)

lemma timers_vme: "c8_vme (timers env s) = c8_vme s"
  by (simp add: timers_def Let_def)

lemma Tick_vme_mem:
  assumes "Tick env s = Some (e, s')"
  shows "vme_mem (c8_vme s') = vme_mem (c8_vme s)"
proof -
  from assms obtain cmd s1 where i: "instr env s = Some (cmd, s1)"
    and s': "s' = timers env (case cmd of None \<Rightarrow> s1 | Some c \<Rightarrow> s1\<lparr>c8_cpu := exec c (c8_cpu s1)\<rparr>)"
    by (auto simp: Tick_def split: bind_splits)
  from i have "vme_mem (c8_vme s1) = vme_mem (c8_vme s)"
    by (auto simp: instr_def execute_vme_mem split: bind_splits)
  with s' show ?thesis by (simp add: timers_vme split: option.splits)
qed

lemma run_vme_mem:
  "run inps s = Some s' \<Longrightarrow> vme_mem (c8_vme s') = vme_mem (c8_vme s)"
proof (induction inps arbitrary: s)
  case Nil
  then show ?case by simp
next
  case (Cons inp inps)
  from Cons.prems obtain s1 where u: "Update inp s = Some (None, s1)" and r: "run inps s1 = Some s'"
    by (auto split: option.splits prod.splits)
  from u have "vme_mem (c8_vme s1) = vme_mem (c8_vme s)"
    unfolding Update_def by (drule_tac Tick_vme_mem) simp
  with Cons.IH [OF r] show ?case by simp
qed

text \<open>The equations that evaluate a tick on a concrete machine.\<close>

lemmas c8_eval = Tick_def instr_def fetch_def execute_def exec_0_def exec_8_def exec_E_def
  exec_F_def timers_def buf_get_def buf_set_def buf_slice_def v_get_def v_set_def stack_get_def
  stack_set_def boot_def NewCpu_def NewMemory_def NewVideoMemory_def NewKeyboard_def Load_def
  MEM_SIZE_def Pop_def sixtieth_passed_def Update_def env0_def Let_def


lemma Tick_fetch:
  "fetch s = Some (o1, o2, o3, o4) \<Longrightarrow>
   Tick env s =
     (case execute env o1 o2 o3 o4 s of
        None \<Rightarrow> None
      | Some (cmd, s1) \<Rightarrow>
          Some (None, timers env (case cmd of None \<Rightarrow> s1
                                   | Some c \<Rightarrow> s1\<lparr>c8_cpu := exec c (c8_cpu s1)\<rparr>)))"
  by (simp add: Tick_def instr_def split: option.splits)

lemma same_machine_timers: "same_machine s (timers env s)"
  by (simp add: same_machine_def timers_def Let_def)

lemma same_machine_timers_pc:
  "same_machine s (timers env (s\<lparr>c8_cpu := (c8_cpu s)\<lparr>cpu_pc := a\<rparr>\<rparr>))"
  by (simp add: same_machine_def timers_def Let_def)

lemma execute_8_unlisted:
  assumes "unat o2 < 16" "unat o3 < 16"
    and "o4 \<notin> {0x0, 0x1, 0x2, 0x3, 0x4, 0x5, 0x6, 0x7, 0xE}"
  shows "execute env 0x8 o2 o3 o4 s = Some (Some Next, s)"
  using assms by (simp add: execute_def exec_8_def v_get_def Let_def)

lemma execute_F_unlisted:
  assumes "unat o2 < 16" "unat o3 < 16"
    and "(o3 = 0x0 \<and> o4 \<notin> {0x7, 0xA}) \<or> (o3 = 0x1 \<and> o4 \<notin> {0x5, 0x8, 0xE}) \<or>
         o3 \<notin> {0x0, 0x1, 0x2, 0x3, 0x5, 0x6}"
  shows "execute env 0xF o2 o3 o4 s = Some (None, s)"
  using assms by (auto simp: execute_def exec_F_def v_get_def Let_def)

lemma execute_0_unlisted:
  assumes "unat o3 < 16" and "\<not> (o3 = 0xE \<and> (o4 = 0x0 \<or> o4 = 0xE))"
  shows "execute env 0x0 0x0 o3 o4 s = Some (None, s)"
  using assms by (auto simp: execute_def exec_0_def v_get_def Let_def)

lemma execute_E_unlisted:
  assumes "unat o2 < 16" "unat o3 < 16" and "o3 \<notin> {0x9, 0xA}"
  shows "execute env 0xE o2 o3 o4 s = Some (None, s)"
  using assms by (auto simp: execute_def exec_E_def v_get_def Let_def)

lemma execute_o4_ignored:
  assumes "o1 = 0x5 \<or> o1 = 0x9 \<or> o1 = 0xE \<or> (o1 = 0xF \<and> o3 \<in> {0x2, 0x3, 0x5, 0x6})"
  shows "execute env o1 o2 o3 o4 s = execute env o1 o2 o3 o4' s"
  using assms by (auto simp: execute_def exec_F_def Let_def)




lemma unat_ucast_8_16: "unat (ucast (b :: u8) :: u16) = unat b"
proof -
  have "unat b < 2 ^ LENGTH(8)" by (rule unsigned_less)
  then have "unat b < 2 ^ 16" by simp
  then show ?thesis by (simp add: unsigned_ucast_eq take_bit_nat_eq_self)
qed


lemma same_machine_refl: "same_machine s s"
  by (simp add: same_machine_def)

lemma same_machine_trans: "same_machine s s1 \<Longrightarrow> same_machine s1 s2 \<Longrightarrow> same_machine s s2"
  by (simp add: same_machine_def)

lemma fetch_cong:
  "c8_mem s' = c8_mem s \<Longrightarrow> cpu_pc (c8_cpu s') = cpu_pc (c8_cpu s) \<Longrightarrow> fetch s' = fetch s"
  by (simp add: fetch_def)

lemma execute_Fx0A_empty:
  assumes "unat x < 16" "kb_queue (c8_kb s) = []"
  shows "execute env 0xF x 0x0 0xA s = Some (None, s)"
  using assms by (simp add: execute_def exec_F_def v_get_def Pop_def Let_def)

lemma execute_Fx0A_key:
  assumes "unat x < 16" "kb_queue (c8_kb s) = key # keys"
  shows "execute env 0xF x 0x0 0xA s =
    Some (Some Next, s\<lparr>c8_cpu := (c8_cpu s)\<lparr>cpu_v := (cpu_v (c8_cpu s))(unat x := ucast key)\<rparr>,
                        c8_kb := (c8_kb s)\<lparr>kb_queue := keys\<rparr>\<rparr>)"
  using assms by (simp add: execute_def exec_F_def v_get_def v_set_def Pop_def Let_def)

lemma Fx0A_empty_tick:
  assumes f: "fetch s = Some (0xF, x, 0x0, 0xA)" and q: "kb_queue (c8_kb s) = []"
  shows "Tick env s = Some (None, timers env s)"
  using fetch_nibbles [OF f] q by (simp add: Tick_fetch [OF f] execute_Fx0A_empty)

lemma Fx0A_empty_run:
  assumes "fetch s = Some (0xF, x, 0x0, 0xA)" "kb_queue (c8_kb s) = []"
  shows "\<exists>s'. run (map (Pair []) envs) s = Some s' \<and> same_machine s s' \<and>
            cpu_pc (c8_cpu s') = cpu_pc (c8_cpu s)"
  using assms
proof (induction envs arbitrary: s)
  case Nil
  show ?case by (simp add: same_machine_refl)
next
  case (Cons env envs)
  let ?s1 = "timers env s"
  have sm: "same_machine s ?s1" by (rule same_machine_timers)
  have pc: "cpu_pc (c8_cpu ?s1) = cpu_pc (c8_cpu s)" by (rule timers_pc)
  have u: "Update ([], env) s = Some (None, ?s1)"
    using Fx0A_empty_tick [OF Cons.prems] by (simp add: Update_def)
  have "fetch ?s1 = fetch s" using sm pc by (intro fetch_cong) (simp_all add: same_machine_def)
  with Cons.prems have f1: "fetch ?s1 = Some (0xF, x, 0x0, 0xA)" by simp
  have q1: "kb_queue (c8_kb ?s1) = []" using sm Cons.prems(2) by (simp add: same_machine_def)
  from Cons.IH [OF f1 q1] obtain s' where r: "run (map (Pair []) envs) ?s1 = Some s'"
    and sm': "same_machine ?s1 s'" and pc': "cpu_pc (c8_cpu s') = cpu_pc (c8_cpu ?s1)"
    by blast
  from r u have "run (map (Pair []) (env # envs)) s = Some s'" by simp
  moreover from sm sm' have "same_machine s s'" by (rule same_machine_trans)
  ultimately show ?case using pc pc' by simp
qed

lemma Tick_instr:
  "instr env s = Some (cmd, s1) \<Longrightarrow>
   Tick env s = Some (None, timers env (case cmd of None \<Rightarrow> s1
                                       | Some c \<Rightarrow> s1\<lparr>c8_cpu := exec c (c8_cpu s1)\<rparr>))"
  by (simp add: Tick_def)

lemma edge_rom_nth: "edge_rom ! 0 = 0x1F" "edge_rom ! Suc 0 = 0xFC" "edge_rom ! 3580 = 0x30"
  "edge_rom ! 3581 = 0x00" "length edge_rom = 3582"
  by (simp_all add: edge_rom_def nth_append)

lemma fontset_glyph:
  assumes "d < 16"
  shows "[fontset ! (d * 5), fontset ! (d * 5 + 1), fontset ! (d * 5 + 2), fontset ! (d * 5 + 3),
          fontset ! (d * 5 + 4)] = normative_font ! d"
proof -
  from assms have "d = 0 \<or> d = 1 \<or> d = 2 \<or> d = 3 \<or> d = 4 \<or> d = 5 \<or> d = 6 \<or> d = 7 \<or>
      d = 8 \<or> d = 9 \<or> d = 10 \<or> d = 11 \<or> d = 12 \<or> d = 13 \<or> d = 14 \<or> d = 15"
    by arith
  then show ?thesis
    by (elim disjE) (simp_all add: fontset_def normative_font_def)
qed

lemma low_nibble_id:
  assumes "unat (b :: u8) < 16"
  shows "b AND 0x0F = b"
proof -
  from assms have "b < 2 ^ 4" by (simp add: word_less_nat_alt)
  then have "b AND mask 4 = b" by (rule less_mask_eq)
  then show ?thesis by (simp add: mask_eq_exp_minus_1)
qed

lemma execute_Fx29:
  assumes "unat x < 16"
  shows "execute env 0xF x 0x2 o4 s =
    Some (Some Next, s\<lparr>c8_cpu := (c8_cpu s)\<lparr>cpu_i := ucast (cpu_v (c8_cpu s) (unat x)) * 5\<rparr>\<rparr>)"
  using assms by (simp add: execute_def exec_F_def v_get_def Let_def)

lemma unat_times_5: "unat ((ucast (b :: u8) :: u16) * 5) = unat b * 5"
proof -
  have "unat b < 2 ^ LENGTH(8)" by (rule unsigned_less)
  then have "unat b * 5 < 65536" by simp
  then show ?thesis by (simp add: unat_word_ariths unat_ucast_8_16)
qed

lemma addr_inj:
  fixes i :: u16
  assumes "j < 65536" "k < 65536" "j \<noteq> k"
  shows "unat (i + of_nat j) \<noteq> unat (i + of_nat k)"
proof
  assume "unat (i + of_nat j) = unat (i + of_nat k)"
  then have "i + of_nat j = i + of_nat k" by (simp add: word_unat_eq_iff)
  then have "(of_nat j :: u16) = of_nat k" by simp
  then have "unat (of_nat j :: u16) = unat (of_nat k :: u16)" by simp
  with assms show False by (simp add: unat_of_nat)
qed

lemma store_loop_other:
  "store_loop n x cpu mem = Some mem' \<Longrightarrow>
   (\<And>j. n \<le> j \<Longrightarrow> j \<le> x \<Longrightarrow> a \<noteq> unat (cpu_i cpu + of_nat j)) \<Longrightarrow>
   mem_buf mem' a = mem_buf mem a"
proof (induction n x cpu mem rule: store_loop.induct)
  case (1 n x cpu mem)
  show ?case
  proof (cases "n \<le> x")
    case False
    with "1.prems"(1) show ?thesis by (simp add: store_loop.simps [of n])
  next
    case True
    with "1.prems"(1) obtain b m1 where b: "v_get cpu n = Some b"
      and m1: "buf_set mem (unat (cpu_i cpu + of_nat n)) b = Some m1"
      and l: "store_loop (Suc n) x cpu m1 = Some mem'"
      by (auto simp: store_loop.simps [of n] split: option.splits)
    have "mem_buf mem' a = mem_buf m1 a"
      by (rule "1.IH" [OF True b m1 l]) (simp add: "1.prems"(2))
    moreover have "a \<noteq> unat (cpu_i cpu + of_nat n)" using True by (intro "1.prems"(2)) simp_all
    ultimately show ?thesis using m1 by (auto simp: buf_set_Some)
  qed
qed

lemma store_loop_written:
  "store_loop n x cpu mem = Some mem' \<Longrightarrow> n \<le> k \<Longrightarrow> k \<le> x \<Longrightarrow>
   k < 64 \<and> unat (cpu_i cpu + of_nat k) < MEM_SIZE \<and>
   mem_buf mem' (unat (cpu_i cpu + of_nat k)) = cpu_v cpu k"
proof (induction n x cpu mem arbitrary: k rule: store_loop.induct)
  case (1 n x cpu mem)
  from "1.prems" have True: "n \<le> x" by simp
  with "1.prems"(1) obtain b m1 where b: "v_get cpu n = Some b"
    and m1: "buf_set mem (unat (cpu_i cpu + of_nat n)) b = Some m1"
    and l: "store_loop (Suc n) x cpu m1 = Some mem'"
    by (auto simp: store_loop.simps [of n] split: option.splits)
  show ?case
  proof (cases "k = n")
    case False
    with "1.prems" have "Suc n \<le> k" by simp
    from "1.IH" [OF True b m1 l this "1.prems"(3)] show ?thesis .
  next
    case k: True
    have n64: "n < 64" using b by (simp add: v_get_Some)
    have later: "\<And>j. Suc n \<le> j \<Longrightarrow> j \<le> x \<Longrightarrow>
        unat (cpu_i cpu + of_nat n) \<noteq> unat (cpu_i cpu + of_nat j)"
    proof -
      fix j assume j: "Suc n \<le> j" "j \<le> x"
      from "1.IH" [OF True b m1 l j] have "j < 64" by simp
      with n64 j show "unat (cpu_i cpu + of_nat n) \<noteq> unat (cpu_i cpu + of_nat j)"
        by (intro addr_inj) simp_all
    qed
    have "mem_buf mem' (unat (cpu_i cpu + of_nat n)) = mem_buf m1 (unat (cpu_i cpu + of_nat n))"
      using l later by (rule store_loop_other)
    with b m1 n64 k show ?thesis by (auto simp: buf_set_Some v_get_Some)
  qed
qed

lemma store_loop_Some:
  "x < 64 \<Longrightarrow> unat (cpu_i cpu) + x < MEM_SIZE \<Longrightarrow> \<exists>mem'. store_loop n x cpu mem = Some mem'"
proof (induction n x cpu mem rule: store_loop.induct)
  case (1 n x cpu mem)
  show ?case
  proof (cases "n \<le> x")
    case False
    then show ?thesis by (simp add: store_loop.simps [of n])
  next
    case True
    have a: "unat (cpu_i cpu + of_nat n) = unat (cpu_i cpu) + n"
      using True "1.prems" by (intro unat_add_small) (simp add: MEM_SIZE_def)
    let ?m1 = "mem\<lparr>mem_buf := (mem_buf mem)(unat (cpu_i cpu + of_nat n) := cpu_v cpu n)\<rparr>"
    have b: "v_get cpu n = Some (cpu_v cpu n)" using True "1.prems" by (simp add: v_get_def)
    have m1: "buf_set mem (unat (cpu_i cpu + of_nat n)) (cpu_v cpu n) = Some ?m1"
      using True "1.prems" by (simp add: buf_set_def a)
    from "1.IH" [OF True b m1 "1.prems"] b m1 True show ?thesis
      by (simp add: store_loop.simps [of n])
  qed
qed

lemma load_loop_char:
  "load_loop n x cpu mem = Some cpu' \<Longrightarrow>
   cpu_v cpu' k = (if n \<le> k \<and> k \<le> x then mem_buf mem (unat (cpu_i cpu + of_nat k))
                   else cpu_v cpu k)"
proof (induction n x cpu mem arbitrary: k rule: load_loop.induct)
  case (1 n x cpu mem)
  show ?case
  proof (cases "n \<le> x")
    case False
    with "1.prems" show ?thesis by (auto simp: load_loop.simps [of n])
  next
    case True
    with "1.prems" obtain b c where b: "buf_get mem (unat (cpu_i cpu + of_nat n)) = Some b"
      and c: "v_set cpu n b = Some c" and l: "load_loop (Suc n) x c mem = Some cpu'"
      by (auto simp: load_loop.simps [of n] split: option.splits)
    from "1.IH" [OF True b c l, of k] b c True show ?thesis
      by (auto simp: v_set_Some buf_get_Some)
  qed
qed

lemma load_loop_Some:
  "x < 64 \<Longrightarrow> unat (cpu_i cpu) + x < MEM_SIZE \<Longrightarrow> \<exists>cpu'. load_loop n x cpu mem = Some cpu'"
proof (induction n x cpu mem rule: load_loop.induct)
  case (1 n x cpu mem)
  show ?case
  proof (cases "n \<le> x")
    case False
    then show ?thesis by (simp add: load_loop.simps [of n])
  next
    case True
    have a: "unat (cpu_i cpu + of_nat n) = unat (cpu_i cpu) + n"
      using True "1.prems" by (intro unat_add_small) (simp add: MEM_SIZE_def)
    let ?b = "mem_buf mem (unat (cpu_i cpu + of_nat n))"
    let ?c = "cpu\<lparr>cpu_v := (cpu_v cpu)(n := ?b)\<rparr>"
    have b: "buf_get mem (unat (cpu_i cpu + of_nat n)) = Some ?b"
      using True "1.prems" by (simp add: buf_get_def a)
    have c: "v_set cpu n ?b = Some ?c" using True "1.prems" by (simp add: v_set_def)
    have "unat (cpu_i ?c) + x < MEM_SIZE" using "1.prems" by simp
    from "1.IH" [OF True b c "1.prems"(1) this] b c True show ?thesis
      by (simp add: load_loop.simps [of n])
  qed
qed

lemma execute_Fx55:
  assumes "unat x < 16"
  shows "execute env 0xF x 0x5 o4 s =
    (case store_loop 0 (unat x) (c8_cpu s) (c8_mem s) of
       None \<Rightarrow> None
     | Some m \<Rightarrow> Some (Some Next, s\<lparr>c8_mem := m\<rparr>))"
  using assms by (simp add: execute_def exec_F_def v_get_def Let_def split: option.splits)

lemma execute_Fx65:
  assumes "unat x < 16"
  shows "execute env 0xF x 0x6 o4 s =
    (case load_loop 0 (unat x) (c8_cpu s) (c8_mem s) of
       None \<Rightarrow> None
     | Some c \<Rightarrow> Some (Some Next, s\<lparr>c8_cpu := c\<rparr>))"
  using assms by (simp add: execute_def exec_F_def v_get_def Let_def split: option.splits)

lemma timers_regs:
  "cpu_v (c8_cpu (timers env s)) = cpu_v (c8_cpu s)"
  "cpu_i (c8_cpu (timers env s)) = cpu_i (c8_cpu s)"
  "c8_mem (timers env s) = c8_mem s"
  by (simp_all add: timers_def Let_def)

lemma store_loop_range:
  assumes "store_loop 0 x cpu mem = Some mem'"
  shows "x < 64 \<and> unat (cpu_i cpu) + x < MEM_SIZE"
proof -
  from store_loop_written [OF assms, of 0] have i: "unat (cpu_i cpu) < MEM_SIZE" by simp
  from store_loop_written [OF assms, of x]
  have x: "x < 64" and a: "unat (cpu_i cpu + of_nat x) < MEM_SIZE" by simp_all
  from i x have "unat (cpu_i cpu) + x < 65536" by (simp add: MEM_SIZE_def)
  then have "unat (cpu_i cpu + of_nat x) = unat (cpu_i cpu) + x" by (rule unat_add_small)
  with a x show ?thesis by simp
qed

lemma draw_Some_plane:
  assumes "draw vme x y buf = Some (vf, vme')"
  shows "vme_buf vme' px py = vme_buf vme px py XOR sprite_bit buf (unat x) (unat y) px py"
  using assms by (auto simp: draw_char split: if_splits)

lemma sprite_bit_inside:
  assumes "i < length buf" "b \<le> 7"
  shows "sprite_bit buf X Y (X + 7 - b) (Y + i) = drop_bit b (buf ! i) AND 1"
proof -
  have "7 - (X + 7 - b - X) = b" "X \<le> X + 7 - b" "X + 7 - b < X + 8" using assms(2) by simp_all
  then show ?thesis using assms(1) by (simp add: sprite_bit_def)
qed

lemma sprite_bit_outside:
  "\<not> (X \<le> px \<and> px < X + 8 \<and> Y \<le> py \<and> py < Y + length buf) \<Longrightarrow> sprite_bit buf X Y px py = 0"
  by (auto simp: sprite_bit_def)

lemma sprite_bit_01: "sprite_bit buf X Y px py = 0 \<or> sprite_bit buf X Y px py = 1"
proof -
  have "\<And>(w :: u8). w AND 1 = 0 \<or> w AND 1 = 1"
    by (simp add: and_one_eq mod_2_eq_odd)
  then show ?thesis by (simp add: sprite_bit_def)
qed

lemma xor_flip:
  fixes a :: u8
  assumes "s = 0 \<or> s = 1"
  shows "a = 1 \<and> a XOR s = 0 \<longleftrightarrow> a = 1 \<and> s = 1"
    and "a = 0 \<and> a XOR s = 1 \<longleftrightarrow> a = 0 \<and> s = 1"
    and "a XOR s = 1 \<and> s = 1 \<longleftrightarrow> a = 0 \<and> s = 1"
proof -
  have un1: "a XOR 1 = 1 \<Longrightarrow> a = 0"
  proof -
    assume "a XOR 1 = 1"
    then have "(a XOR 1) XOR 1 = 1 XOR 1" by simp
    then show "a = 0" by (simp add: xor.assoc)
  qed
  have un0: "a XOR 1 = 0 \<Longrightarrow> a = 1"
  proof -
    assume "a XOR 1 = 0"
    then have "(a XOR 1) XOR 1 = 0 XOR 1" by simp
    then show "a = 1" by (simp add: xor.assoc)
  qed
  show "a = 1 \<and> a XOR s = 0 \<longleftrightarrow> a = 1 \<and> s = 1" using assms by auto
  show "a = 0 \<and> a XOR s = 1 \<longleftrightarrow> a = 0 \<and> s = 1" using assms by auto
  show "a XOR s = 1 \<and> s = 1 \<longleftrightarrow> a = 0 \<and> s = 1" using assms un1 by auto
qed

lemma draw_undo:
  assumes "draw vme x y buf = Some (vf, vme')"
  shows "vme'\<lparr>vme_buf := (\<lambda>px py. vme_buf vme' px py XOR sprite_bit buf (unat x) (unat y) px py)\<rparr> = vme"
proof -
  from assms have "vme' = vme\<lparr>vme_buf := (\<lambda>px py. vme_buf vme px py XOR
      sprite_bit buf (unat x) (unat y) px py)\<rparr>"
    by (auto simp: draw_char split: if_splits)
  then show ?thesis by (simp add: xor.assoc)
qed

lemma execute_DRW:
  assumes "unat o2 < 16" "unat o3 < 16"
    and "execute env 0xD o2 o3 o4 s = Some (cmd, s')"
  shows "\<exists>bytes vf.
      buf_slice (c8_mem s) (unat (cpu_i (c8_cpu s))) (unat (cpu_i (c8_cpu s) + ucast o4)) = Some bytes \<and>
      draw (c8_vme s) (ucast (cpu_v (c8_cpu s) (unat o2))) (ucast (cpu_v (c8_cpu s) (unat o3))) bytes =
        Some (vf, c8_vme s') \<and>
      cmd = Some Next \<and>
      s' = s\<lparr>c8_cpu := (c8_cpu s)\<lparr>cpu_v := (cpu_v (c8_cpu s))(0xF := vf)\<rparr>, c8_vme := c8_vme s'\<rparr>"
  using assms
  by (auto simp: execute_def v_get_def v_set_def Let_def split: bind_splits)

lemma draw_blank_lit: "draw NewVideoMemory 0 0 [0x80] = Some (0, lit_plane)"
  by (auto simp: draw_char NewVideoMemory_def lit_plane_def sprite_bit_row fun_eq_iff)

section \<open>Properties of the core\<close>

text \<open>
  C10. No operation of the core writes the current video plane \<open>VideoMemory.mem\<close>:
  \<open>clear\<close> and \<open>draw\<close> leave it as it is, so does every tick that returns, and from the
  machine as \<open>main\<close> builds it the current plane is all zero after every run of updates,
  whatever the program, the keys and the clock.
\<close>

theorem current_plane_never_written:
  "vme_mem (clear vme) = vme_mem vme \<and>
   (draw vme x y buf = Some (vf, vme') \<longrightarrow> vme_mem vme' = vme_mem vme) \<and>
   (Tick env s = Some (e, s') \<longrightarrow> vme_mem (c8_vme s') = vme_mem (c8_vme s)) \<and>
   (run inps (boot now img) = Some s'' \<longrightarrow> vme_mem (c8_vme s'') = (\<lambda>x y. 0))"
proof (intro conjI impI)
  show "vme_mem (clear vme) = vme_mem vme" by (simp add: clear_def)
next
  assume "draw vme x y buf = Some (vf, vme')"
  then show "vme_mem vme' = vme_mem vme" by (rule draw_vme_mem)
next
  assume "Tick env s = Some (e, s')"
  then show "vme_mem (c8_vme s') = vme_mem (c8_vme s)" by (rule Tick_vme_mem)
next
  assume "run inps (boot now img) = Some s''"
  then have "vme_mem (c8_vme s'') = vme_mem (c8_vme (boot now img))" by (rule run_vme_mem)
  then show "vme_mem (c8_vme s'') = (\<lambda>x y. 0)" by (simp add: boot_def NewVideoMemory_def)
qed

theorem current_plane_never_written_witness:
  "\<exists>vf vme' e s' s''.
     draw NewVideoMemory 0 0 [0xF0] = Some (vf, vme') \<and> vme_mem vme' = vme_mem NewVideoMemory \<and>
     Tick env0 (boot 0 [0x00, 0xE0]) = Some (e, s') \<and>
     vme_mem (c8_vme s') = vme_mem (c8_vme (boot 0 [0x00, 0xE0])) \<and>
     run [([], env0), ([], env0), ([], env0)] (boot 0 [0xA0, 0x00, 0xD0, 0x05, 0x00, 0xE0]) = Some s'' \<and>
     vme_mem (c8_vme s'') = (\<lambda>x y. 0)"
proof -
  obtain vf vme' where d: "draw NewVideoMemory 0 0 [0xF0] = Some (vf, vme')"
    by (simp add: draw_char)
  obtain e s' where t: "Tick env0 (boot 0 [0x00, 0xE0]) = Some (e, s')"
    by (simp add: c8_eval)
  obtain s'' where r:
    "run [([], env0), ([], env0), ([], env0)] (boot 0 [0xA0, 0x00, 0xD0, 0x05, 0x00, 0xE0]) = Some s''"
    by (simp add: c8_eval draw_char)
  from current_plane_never_written
    [of NewVideoMemory 0 0 "[0xF0]" vf vme' env0 "boot 0 [0x00, 0xE0]" e s'
      "[([], env0), ([], env0), ([], env0)]" 0 "[0xA0, 0x00, 0xD0, 0x05, 0x00, 0xE0]" s'']
    d t r
  show ?thesis by blast
qed

text \<open>
  C3. The memory array is declared with 0xFFF = 4095 elements: address 4095 is out of
  range for reads and writes, the program region holds 3583 bytes, and a program that
  stores to address 0xFFF (\<open>AFFF F055\<close>) panics the machine.
\<close>

theorem memory_has_4095_bytes:
  "MEM_SIZE = 4095 \<and> buf_get NewMemory 4095 = None \<and> buf_set NewMemory 4095 0 = None \<and>
   MEM_SIZE - 0x200 = 3583 \<and>
   run [([], env0), ([], env0)] (boot 0 [0xAF, 0xFF, 0xF0, 0x55]) = None"
  by (simp add: c8_eval store_loop.simps)

text \<open>
  C4. An opcode inside a defined family that is not a listed instruction never produces
  a fault: \<open>8xy?\<close> with \<open>?\<close> outside 0..7 and E advances the program counter by 2 and
  changes nothing else; \<open>00??\<close> other than \<open>00E0\<close> and \<open>00EE\<close>, \<open>Ex??\<close> with a third
  nibble other than 9 and A, \<open>Fx0?\<close> other than \<open>Fx07\<close> and \<open>Fx0A\<close>, \<open>Fx1?\<close> other than
  \<open>Fx15\<close>, \<open>Fx18\<close> and \<open>Fx1E\<close>, and \<open>Fx??\<close> with a third nibble outside 0, 1, 2, 3, 5, 6
  leave the program counter and everything else but the timers as they are; and in
  the families 5, 9, E and \<open>Fx2?\<close>, \<open>Fx3?\<close>, \<open>Fx5?\<close>, \<open>Fx6?\<close> the last nibble is not
  looked at.
\<close>

theorem unlisted_opcodes_raise_no_fault:
  "(fetch s = Some (0x8, x, y, o4) \<and> o4 \<notin> {0x0, 0x1, 0x2, 0x3, 0x4, 0x5, 0x6, 0x7, 0xE} \<longrightarrow>
      (\<exists>s'. Tick env s = Some (None, s') \<and> same_machine s s' \<and>
            cpu_pc (c8_cpu s') = cpu_pc (c8_cpu s) + 2)) \<and>
   (fetch s = Some (0xF, x, o3, o4) \<and>
      ((o3 = 0x0 \<and> o4 \<notin> {0x7, 0xA}) \<or> (o3 = 0x1 \<and> o4 \<notin> {0x5, 0x8, 0xE}) \<or>
       o3 \<notin> {0x0, 0x1, 0x2, 0x3, 0x5, 0x6}) \<longrightarrow>
      (\<exists>s'. Tick env s = Some (None, s') \<and> same_machine s s' \<and>
            cpu_pc (c8_cpu s') = cpu_pc (c8_cpu s))) \<and>
   (fetch s = Some (0x0, 0x0, o3, o4) \<and> \<not> (o3 = 0xE \<and> (o4 = 0x0 \<or> o4 = 0xE)) \<longrightarrow>
      (\<exists>s'. Tick env s = Some (None, s') \<and> same_machine s s' \<and>
            cpu_pc (c8_cpu s') = cpu_pc (c8_cpu s))) \<and>
   (fetch s = Some (0xE, x, o3, o4) \<and> o3 \<notin> {0x9, 0xA} \<longrightarrow>
      (\<exists>s'. Tick env s = Some (None, s') \<and> same_machine s s' \<and>
            cpu_pc (c8_cpu s') = cpu_pc (c8_cpu s))) \<and>
   (o1 = 0x5 \<or> o1 = 0x9 \<or> o1 = 0xE \<or> (o1 = 0xF \<and> o3 \<in> {0x2, 0x3, 0x5, 0x6}) \<longrightarrow>
      execute env o1 o2 o3 o4 s = execute env o1 o2 o3 o4' s)"
proof (intro conjI impI; (elim conjE)?)
  assume f: "fetch s = Some (0x8, x, y, o4)"
    and u: "o4 \<notin> {0x0, 0x1, 0x2, 0x3, 0x4, 0x5, 0x6, 0x7, 0xE}"
  from fetch_nibbles [OF f] u have "execute env 0x8 x y o4 s = Some (Some Next, s)"
    by (intro execute_8_unlisted) simp_all
  then show "\<exists>s'. Tick env s = Some (None, s') \<and> same_machine s s' \<and>
      cpu_pc (c8_cpu s') = cpu_pc (c8_cpu s) + 2"
    by (simp add: Tick_fetch [OF f] same_machine_timers_pc timers_pc)
next
  assume f: "fetch s = Some (0xF, x, o3, o4)"
    and u: "(o3 = 0x0 \<and> o4 \<notin> {0x7, 0xA}) \<or> (o3 = 0x1 \<and> o4 \<notin> {0x5, 0x8, 0xE}) \<or>
       o3 \<notin> {0x0, 0x1, 0x2, 0x3, 0x5, 0x6}"
  from fetch_nibbles [OF f] u have "execute env 0xF x o3 o4 s = Some (None, s)"
    by (intro execute_F_unlisted) simp_all
  then show "\<exists>s'. Tick env s = Some (None, s') \<and> same_machine s s' \<and>
      cpu_pc (c8_cpu s') = cpu_pc (c8_cpu s)"
    by (simp add: Tick_fetch [OF f] same_machine_timers timers_pc)
next
  assume f: "fetch s = Some (0x0, 0x0, o3, o4)"
    and u: "\<not> (o3 = 0xE \<and> (o4 = 0x0 \<or> o4 = 0xE))"
  from fetch_nibbles [OF f] u have "execute env 0x0 0x0 o3 o4 s = Some (None, s)"
    by (intro execute_0_unlisted) simp_all
  then show "\<exists>s'. Tick env s = Some (None, s') \<and> same_machine s s' \<and>
      cpu_pc (c8_cpu s') = cpu_pc (c8_cpu s)"
    by (simp add: Tick_fetch [OF f] same_machine_timers timers_pc)
next
  assume f: "fetch s = Some (0xE, x, o3, o4)" and u: "o3 \<notin> {0x9, 0xA}"
  from fetch_nibbles [OF f] u have "execute env 0xE x o3 o4 s = Some (None, s)"
    by (intro execute_E_unlisted) simp_all
  then show "\<exists>s'. Tick env s = Some (None, s') \<and> same_machine s s' \<and>
      cpu_pc (c8_cpu s') = cpu_pc (c8_cpu s)"
    by (simp add: Tick_fetch [OF f] same_machine_timers timers_pc)
next
  assume "o1 = 0x5 \<or> o1 = 0x9 \<or> o1 = 0xE \<or> (o1 = 0xF \<and> o3 \<in> {0x2, 0x3, 0x5, 0x6})"
  then show "execute env o1 o2 o3 o4 s = execute env o1 o2 o3 o4' s"
    by (rule execute_o4_ignored)
qed

theorem unlisted_opcodes_raise_no_fault_witness:
  "(\<exists>s'. Tick env0 (boot 0 [0x80, 0x19]) = Some (None, s') \<and>
      same_machine (boot 0 [0x80, 0x19]) s' \<and> cpu_pc (c8_cpu s') = 0x202) \<and>
   (\<exists>s'. Tick env0 (boot 0 [0xF0, 0x00]) = Some (None, s') \<and>
      same_machine (boot 0 [0xF0, 0x00]) s' \<and> cpu_pc (c8_cpu s') = 0x200) \<and>
   (\<exists>s'. Tick env0 (boot 0 [0x00, 0x00]) = Some (None, s') \<and>
      same_machine (boot 0 [0x00, 0x00]) s' \<and> cpu_pc (c8_cpu s') = 0x200) \<and>
   (\<exists>s'. Tick env0 (boot 0 [0xE0, 0x00]) = Some (None, s') \<and>
      same_machine (boot 0 [0xE0, 0x00]) s' \<and> cpu_pc (c8_cpu s') = 0x200) \<and>
   execute env0 0xF 0x0 0x2 0x0 (boot 0 [0xF0, 0x20]) =
     execute env0 0xF 0x0 0x2 0x9 (boot 0 [0xF0, 0x20])"
proof -
  have f8: "fetch (boot 0 [0x80, 0x19]) = Some (0x8, 0x0, 0x1, 0x9)" by (simp add: c8_eval)
  have fF: "fetch (boot 0 [0xF0, 0x00]) = Some (0xF, 0x0, 0x0, 0x0)" by (simp add: c8_eval)
  have f0: "fetch (boot 0 [0x00, 0x00]) = Some (0x0, 0x0, 0x0, 0x0)" by (simp add: c8_eval)
  have fE: "fetch (boot 0 [0xE0, 0x00]) = Some (0xE, 0x0, 0x0, 0x0)" by (simp add: c8_eval)
  have pc: "\<And>img. cpu_pc (c8_cpu (boot 0 img)) = 0x200" by (simp add: boot_def NewCpu_def)
  from unlisted_opcodes_raise_no_fault [where s = "boot 0 [0x80, 0x19]" and x = 0 and y = 1
      and ?o4.0 = 9 and env = env0, THEN conjunct1] f8
  have 1: "\<exists>s'. Tick env0 (boot 0 [0x80, 0x19]) = Some (None, s') \<and>
      same_machine (boot 0 [0x80, 0x19]) s' \<and> cpu_pc (c8_cpu s') = 0x202"
    by (simp add: pc)
  from unlisted_opcodes_raise_no_fault [where s = "boot 0 [0xF0, 0x00]" and x = 0
      and ?o3.0 = 0 and ?o4.0 = 0 and env = env0, THEN conjunct2, THEN conjunct1] fF
  have 2: "\<exists>s'. Tick env0 (boot 0 [0xF0, 0x00]) = Some (None, s') \<and>
      same_machine (boot 0 [0xF0, 0x00]) s' \<and> cpu_pc (c8_cpu s') = 0x200"
    by (simp add: pc)
  from unlisted_opcodes_raise_no_fault [where s = "boot 0 [0x00, 0x00]"
      and ?o3.0 = 0 and ?o4.0 = 0 and env = env0, THEN conjunct2, THEN conjunct2, THEN conjunct1] f0
  have 3: "\<exists>s'. Tick env0 (boot 0 [0x00, 0x00]) = Some (None, s') \<and>
      same_machine (boot 0 [0x00, 0x00]) s' \<and> cpu_pc (c8_cpu s') = 0x200"
    by (simp add: pc)
  from unlisted_opcodes_raise_no_fault [where s = "boot 0 [0xE0, 0x00]" and x = 0
      and ?o3.0 = 0 and ?o4.0 = 0 and env = env0,
      THEN conjunct2, THEN conjunct2, THEN conjunct2, THEN conjunct1] fE
  have 4: "\<exists>s'. Tick env0 (boot 0 [0xE0, 0x00]) = Some (None, s') \<and>
      same_machine (boot 0 [0xE0, 0x00]) s' \<and> cpu_pc (c8_cpu s') = 0x200"
    by (simp add: pc)
  from unlisted_opcodes_raise_no_fault [where s = "boot 0 [0xF0, 0x20]"
      and ?o1.0 = 15 and ?o2.0 = 0 and ?o3.0 = 2 and ?o4.0 = 0 and o4' = 9 and env = env0,
      THEN conjunct2, THEN conjunct2, THEN conjunct2, THEN conjunct2]
  have 5: "execute env0 0xF 0x0 0x2 0x0 (boot 0 [0xF0, 0x20]) =
     execute env0 0xF 0x0 0x2 0x9 (boot 0 [0xF0, 0x20])"
    by simp
  from 1 2 3 4 5 show ?thesis by blast
qed

theorem unlisted_opcodes_counterexample:
  "Tick env0 (boot 0 [0x80, 0x19]) =
     Some (None, (boot 0 [0x80, 0x19])\<lparr>c8_cpu := (NewCpu 0)\<lparr>cpu_pc := 0x202\<rparr>\<rparr>) \<and>
   Tick env0 (boot 0 [0xF0, 0x00]) = Some (None, boot 0 [0xF0, 0x00])"
  by (simp add: c8_eval)




text \<open>
  C5. When the instruction at PC is \<open>Fx0A\<close> and the key queue is empty, the tick returns
  and leaves PC, the registers V, I, the stack, SP, the memory, the video memory and the
  queue as they were, so the same instruction is fetched again; this goes on for any
  number of ticks while no key arrives. When the queue is not empty, the tick removes
  its oldest key, stores it (as a byte) in Vx, advances PC by 2 and changes nothing
  else but the timers.
\<close>

theorem Fx0A_waits_for_a_key:
  assumes "fetch s = Some (0xF, x, 0x0, 0xA)"
  shows
  "(kb_queue (c8_kb s) = [] \<longrightarrow>
      (\<exists>s'. Tick env s = Some (None, s') \<and> same_machine s s' \<and>
            cpu_pc (c8_cpu s') = cpu_pc (c8_cpu s) \<and> fetch s' = Some (0xF, x, 0x0, 0xA)) \<and>
      (\<exists>s'. run (map (Pair []) envs) s = Some s' \<and> same_machine s s' \<and>
            cpu_pc (c8_cpu s') = cpu_pc (c8_cpu s))) \<and>
   (kb_queue (c8_kb s) = key # keys \<longrightarrow>
      (\<exists>s'. Tick env s = Some (None, s') \<and>
            cpu_v (c8_cpu s') = (cpu_v (c8_cpu s))(unat x := ucast key) \<and>
            kb_queue (c8_kb s') = keys \<and>
            cpu_pc (c8_cpu s') = cpu_pc (c8_cpu s) + 2 \<and>
            cpu_i (c8_cpu s') = cpu_i (c8_cpu s) \<and> cpu_sp (c8_cpu s') = cpu_sp (c8_cpu s) \<and>
            cpu_stack (c8_cpu s') = cpu_stack (c8_cpu s) \<and>
            c8_mem s' = c8_mem s \<and> c8_vme s' = c8_vme s))"
proof (intro conjI impI)
  assume q: "kb_queue (c8_kb s) = []"
  have "fetch (timers env s) = fetch s"
    using same_machine_timers [of s env] timers_pc [of env s]
    by (intro fetch_cong) (simp_all add: same_machine_def)
  then show "\<exists>s'. Tick env s = Some (None, s') \<and> same_machine s s' \<and>
            cpu_pc (c8_cpu s') = cpu_pc (c8_cpu s) \<and> fetch s' = Some (0xF, x, 0x0, 0xA)"
    using Fx0A_empty_tick [OF assms q] assms
    by (simp add: same_machine_timers timers_pc)
  show "\<exists>s'. run (map (Pair []) envs) s = Some s' \<and> same_machine s s' \<and>
            cpu_pc (c8_cpu s') = cpu_pc (c8_cpu s)"
    using assms q by (rule Fx0A_empty_run)
next
  assume q: "kb_queue (c8_kb s) = key # keys"
  show "\<exists>s'. Tick env s = Some (None, s') \<and>
            cpu_v (c8_cpu s') = (cpu_v (c8_cpu s))(unat x := ucast key) \<and>
            kb_queue (c8_kb s') = keys \<and>
            cpu_pc (c8_cpu s') = cpu_pc (c8_cpu s) + 2 \<and>
            cpu_i (c8_cpu s') = cpu_i (c8_cpu s) \<and> cpu_sp (c8_cpu s') = cpu_sp (c8_cpu s) \<and>
            cpu_stack (c8_cpu s') = cpu_stack (c8_cpu s) \<and>
            c8_mem s' = c8_mem s \<and> c8_vme s' = c8_vme s"
    using fetch_nibbles [OF assms] q
    by (simp add: Tick_fetch [OF assms] execute_Fx0A_key timers_def Let_def)
qed

theorem Fx0A_waits_for_a_key_witness:
  "(\<exists>s'. Tick env0 (boot 0 [0xF3, 0x0A]) = Some (None, s') \<and>
      same_machine (boot 0 [0xF3, 0x0A]) s' \<and> cpu_pc (c8_cpu s') = 0x200 \<and>
      fetch s' = Some (0xF, 0x3, 0x0, 0xA)) \<and>
   (\<exists>s'. run (map (Pair []) [env0, env0, env0]) (boot 0 [0xF3, 0x0A]) = Some s' \<and>
      same_machine (boot 0 [0xF3, 0x0A]) s' \<and> cpu_pc (c8_cpu s') = 0x200) \<and>
   (\<exists>s'. Tick env0 ((boot 0 [0xF3, 0x0A])\<lparr>c8_kb := \<lparr>kb_queue = [0x7, 0x1]\<rparr>\<rparr>) = Some (None, s') \<and>
      cpu_v (c8_cpu s') 3 = 0x7 \<and> kb_queue (c8_kb s') = [0x1] \<and> cpu_pc (c8_cpu s') = 0x202)"
proof -
  let ?s = "boot 0 [0xF3, 0x0A]"
  let ?k = "(boot 0 [0xF3, 0x0A])\<lparr>c8_kb := \<lparr>kb_queue = [0x7, 0x1]\<rparr>\<rparr>"
  have f: "fetch ?s = Some (0xF, 0x3, 0x0, 0xA)" and q: "kb_queue (c8_kb ?s) = []"
    and pc: "cpu_pc (c8_cpu ?s) = 0x200"
    by (simp_all add: c8_eval)
  have fk: "fetch ?k = Some (0xF, 0x3, 0x0, 0xA)" and qk: "kb_queue (c8_kb ?k) = [0x7, 0x1]"
    and pck: "cpu_pc (c8_cpu ?k) = 0x200"
    by (simp_all add: c8_eval)
  from Fx0A_waits_for_a_key [OF f, where env = env0 and envs = "[env0, env0, env0]"] q pc
  have 1: "(\<exists>s'. Tick env0 ?s = Some (None, s') \<and> same_machine ?s s' \<and>
      cpu_pc (c8_cpu s') = 0x200 \<and> fetch s' = Some (0xF, 0x3, 0x0, 0xA)) \<and>
    (\<exists>s'. run (map (Pair []) [env0, env0, env0]) ?s = Some s' \<and>
      same_machine ?s s' \<and> cpu_pc (c8_cpu s') = 0x200)"
    by simp
  from Fx0A_waits_for_a_key [OF fk, where env = env0 and key = 7 and keys = "[0x1]"] qk pck
  have 2: "\<exists>s'. Tick env0 ?k = Some (None, s') \<and>
      cpu_v (c8_cpu s') 3 = 0x7 \<and> kb_queue (c8_kb s') = [0x1] \<and> cpu_pc (c8_cpu s') = 0x202"
    by auto
  from 1 2 show ?thesis by blast
qed

text \<open>
  C9. \<open>Next\<close> adds 2 and \<open>Skip\<close> adds 4 to the 16-bit program counter, wrapping at 65536;
  the program counter is never reduced modulo 4096. So in a tick whose instruction ends
  with \<open>Next\<close> (with \<open>Skip\<close>) the new PC is the old PC plus 2 (plus 4) in 16 bits, which
  is congruent modulo 4096 to the old PC plus 2 (plus 4), and need not be below 4096.
\<close>

theorem pc_after_Next_and_Skip:
  "cpu_pc (exec Next cpu) = cpu_pc cpu + 2 \<and>
   unat (cpu_pc (exec Next cpu)) = (unat (cpu_pc cpu) + 2) mod 65536 \<and>
   cpu_pc (exec Skip cpu) = cpu_pc cpu + 4 \<and>
   unat (cpu_pc (exec Skip cpu)) = (unat (cpu_pc cpu) + 4) mod 65536 \<and>
   (instr env s = Some (Some Next, s1) \<longrightarrow>
      (\<exists>s'. Tick env s = Some (None, s') \<and>
            cpu_pc (c8_cpu s') = cpu_pc (c8_cpu s) + 2 \<and>
            unat (cpu_pc (c8_cpu s')) = (unat (cpu_pc (c8_cpu s)) + 2) mod 65536 \<and>
            unat (cpu_pc (c8_cpu s')) mod 4096 = (unat (cpu_pc (c8_cpu s)) + 2) mod 4096)) \<and>
   (instr env s = Some (Some Skip, s1) \<longrightarrow>
      (\<exists>s'. Tick env s = Some (None, s') \<and>
            cpu_pc (c8_cpu s') = cpu_pc (c8_cpu s) + 4 \<and>
            unat (cpu_pc (c8_cpu s')) = (unat (cpu_pc (c8_cpu s)) + 4) mod 65536 \<and>
            unat (cpu_pc (c8_cpu s')) mod 4096 = (unat (cpu_pc (c8_cpu s)) + 4) mod 4096))"
proof (intro conjI impI)
  have w: "\<And>(p :: u16) k. unat (p + of_nat k) = (unat p + k mod 65536) mod 65536"
    by (simp add: unat_word_ariths unat_of_nat)
  have m: "\<And>a :: nat. a mod 65536 mod 4096 = a mod 4096"
    by (rule mod_mod_cancel) simp
  show "cpu_pc (exec Next cpu) = cpu_pc cpu + 2" by simp
  show "unat (cpu_pc (exec Next cpu)) = (unat (cpu_pc cpu) + 2) mod 65536"
    using w [of "cpu_pc cpu" 2] by simp
  show "cpu_pc (exec Skip cpu) = cpu_pc cpu + 4" by simp
  show "unat (cpu_pc (exec Skip cpu)) = (unat (cpu_pc cpu) + 4) mod 65536"
    using w [of "cpu_pc cpu" 4] by simp
  {
    assume i: "instr env s = Some (Some Next, s1)"
    have pc: "cpu_pc (c8_cpu s1) = cpu_pc (c8_cpu s)" using i by (rule instr_pc)
    have u: "unat (cpu_pc (c8_cpu s) + 2) = (unat (cpu_pc (c8_cpu s)) + 2) mod 65536"
      using w [of "cpu_pc (c8_cpu s)" 2] by simp
    show "\<exists>s'. Tick env s = Some (None, s') \<and>
            cpu_pc (c8_cpu s') = cpu_pc (c8_cpu s) + 2 \<and>
            unat (cpu_pc (c8_cpu s')) = (unat (cpu_pc (c8_cpu s)) + 2) mod 65536 \<and>
            unat (cpu_pc (c8_cpu s')) mod 4096 = (unat (cpu_pc (c8_cpu s)) + 2) mod 4096"
      by (simp add: Tick_instr [OF i] timers_pc pc u m)
  }
  {
    assume i: "instr env s = Some (Some Skip, s1)"
    have pc: "cpu_pc (c8_cpu s1) = cpu_pc (c8_cpu s)" using i by (rule instr_pc)
    have u: "unat (cpu_pc (c8_cpu s) + 4) = (unat (cpu_pc (c8_cpu s)) + 4) mod 65536"
      using w [of "cpu_pc (c8_cpu s)" 4] by simp
    show "\<exists>s'. Tick env s = Some (None, s') \<and>
            cpu_pc (c8_cpu s') = cpu_pc (c8_cpu s) + 4 \<and>
            unat (cpu_pc (c8_cpu s')) = (unat (cpu_pc (c8_cpu s)) + 4) mod 65536 \<and>
            unat (cpu_pc (c8_cpu s')) mod 4096 = (unat (cpu_pc (c8_cpu s)) + 4) mod 4096"
      by (simp add: Tick_instr [OF i] timers_pc pc u m)
  }
qed

theorem pc_after_Next_and_Skip_witness:
  "(\<exists>s'. Tick env0 (boot 0 [0x60, 0x0A]) = Some (None, s') \<and>
      cpu_pc (c8_cpu s') = 0x202 \<and> unat (cpu_pc (c8_cpu s')) mod 4096 = 0x202) \<and>
   (\<exists>s'. Tick env0 (boot 0 [0x30, 0x00]) = Some (None, s') \<and>
      cpu_pc (c8_cpu s') = 0x204 \<and> unat (cpu_pc (c8_cpu s')) mod 4096 = 0x204)"
proof -
  let ?n = "boot 0 [0x60, 0x0A]"
  let ?k = "boot 0 [0x30, 0x00]"
  obtain n1 where n: "instr env0 ?n = Some (Some Next, n1)" by (simp add: c8_eval)
  obtain k1 where k: "instr env0 ?k = Some (Some Skip, k1)" by (simp add: c8_eval)
  have pc: "cpu_pc (c8_cpu ?n) = 0x200" "cpu_pc (c8_cpu ?k) = 0x200"
    by (simp_all add: c8_eval)
  from pc_after_Next_and_Skip [where env = env0 and s = ?n and ?s1.0 = n1] n
  have 1: "\<exists>s'. Tick env0 ?n = Some (None, s') \<and>
      cpu_pc (c8_cpu s') = 0x202 \<and> unat (cpu_pc (c8_cpu s')) mod 4096 = 0x202"
    unfolding pc by auto
  from pc_after_Next_and_Skip [where env = env0 and s = ?k and ?s1.0 = k1] k
  have 2: "\<exists>s'. Tick env0 ?k = Some (None, s') \<and>
      cpu_pc (c8_cpu s') = 0x204 \<and> unat (cpu_pc (c8_cpu s')) mod 4096 = 0x204"
    unfolding pc by auto
  from 1 2 show ?thesis by blast
qed

theorem pc_after_Skip_counterexample:
  "run [([], env0)] (boot 0 edge_rom) = Some edge_machine \<and>
   map_option fst (instr env0 edge_machine) = Some (Some Skip) \<and>
   map_option (cpu_pc \<circ> c8_cpu \<circ> snd) (Tick env0 edge_machine) = Some 4096"
  by (simp add: c8_eval edge_machine_def edge_rom_nth)

text \<open>
  C8. For every value of Vx, \<open>Fx29\<close> sets I to Vx * 5 and leaves the memory as it is.
  When Vx is below 16 and the bytes at 0..79 are still the font table, the five bytes at
  I are the normative glyph of the digit Vx; for Vx of 16 and more, I points past the
  font table.
\<close>

theorem Fx29_sets_I_to_5_Vx:
  assumes "fetch s = Some (0xF, x, 0x2, o4)"
  shows "\<exists>s'. Tick env s = Some (None, s') \<and>
      cpu_i (c8_cpu s') = ucast (cpu_v (c8_cpu s) (unat x)) * 5 \<and>
      unat (cpu_i (c8_cpu s')) = unat (cpu_v (c8_cpu s) (unat x)) * 5 \<and>
      c8_mem s' = c8_mem s \<and>
      (unat (cpu_v (c8_cpu s) (unat x)) < 16 \<and> (\<forall>a<80. mem_buf (c8_mem s) a = fontset ! a) \<longrightarrow>
         glyph_at s' = normative_font ! unat (cpu_v (c8_cpu s) (unat x) AND 0x0F)) \<and>
      (16 \<le> unat (cpu_v (c8_cpu s) (unat x)) \<longrightarrow> 80 \<le> unat (cpu_i (c8_cpu s')))"
proof -
  let ?vx = "cpu_v (c8_cpu s) (unat x)"
  define s' where
    "s' = timers env (s\<lparr>c8_cpu := exec Next ((c8_cpu s)\<lparr>cpu_i := ucast ?vx * 5\<rparr>)\<rparr>)"
  have t: "Tick env s = Some (None, s')"
    using fetch_nibbles [OF assms] by (simp add: Tick_fetch [OF assms] execute_Fx29 s'_def)
  have i: "cpu_i (c8_cpu s') = ucast ?vx * 5" and m: "c8_mem s' = c8_mem s"
    by (simp_all add: s'_def timers_def Let_def)
  have u: "unat (cpu_i (c8_cpu s')) = unat ?vx * 5"
    unfolding i by (rule unat_times_5)
  have g: "glyph_at s' = normative_font ! unat (?vx AND 0x0F)"
    if lt: "unat ?vx < 16" and font: "\<forall>a<80. mem_buf (c8_mem s) a = fontset ! a"
  proof -
    have n: "?vx AND 0x0F = ?vx" using lt by (rule low_nibble_id)
    have "unat ?vx * 5 + 4 < 80" using lt by simp
    then have "glyph_at s' =
        [fontset ! (unat ?vx * 5), fontset ! (unat ?vx * 5 + 1), fontset ! (unat ?vx * 5 + 2),
         fontset ! (unat ?vx * 5 + 3), fontset ! (unat ?vx * 5 + 4)]"
      using font by (simp add: glyph_at_def u m Let_def)
    then show ?thesis unfolding n using fontset_glyph [OF lt] by simp
  qed
  have far: "80 \<le> unat (cpu_i (c8_cpu s'))" if "16 \<le> unat ?vx"
    using that unfolding u by simp
  from t i u m g far show ?thesis by blast
qed

theorem Fx29_sets_I_to_5_Vx_witness:
  "(\<exists>s'. Tick env0 ((boot 0 [0xF0, 0x29])\<lparr>c8_cpu := (NewCpu 0)\<lparr>cpu_v := (\<lambda>n. 0xA)\<rparr>\<rparr>) = Some (None, s') \<and>
      cpu_i (c8_cpu s') = 50 \<and> glyph_at s' = [0xF0, 0x90, 0xF0, 0x90, 0x90]) \<and>
   (\<exists>s'. Tick env0 ((boot 0 [0xF0, 0x29])\<lparr>c8_cpu := (NewCpu 0)\<lparr>cpu_v := (\<lambda>n. 0x10)\<rparr>\<rparr>) = Some (None, s') \<and>
      cpu_i (c8_cpu s') = 80 \<and> 80 \<le> unat (cpu_i (c8_cpu s')))"
proof -
  let ?s = "(boot 0 [0xF0, 0x29])\<lparr>c8_cpu := (NewCpu 0)\<lparr>cpu_v := (\<lambda>n. 0xA)\<rparr>\<rparr>"
  let ?t = "(boot 0 [0xF0, 0x29])\<lparr>c8_cpu := (NewCpu 0)\<lparr>cpu_v := (\<lambda>n. 0x10)\<rparr>\<rparr>"
  have f: "fetch ?s = Some (0xF, 0x0, 0x2, 0x9)" by (simp add: c8_eval)
  have v: "cpu_v (c8_cpu ?s) (unat (0x0 :: u8)) = 0xA" by simp
  have font: "\<forall>a<80. mem_buf (c8_mem ?s) a = fontset ! a"
    by (simp add: c8_eval fontset_def)
  have n: "normative_font ! unat ((0xA :: u8) AND 0x0F) = [0xF0, 0x90, 0xF0, 0x90, 0x90]"
    by (simp add: normative_font_def)
  from Fx29_sets_I_to_5_Vx [OF f, where env = env0] font n
  have 1: "\<exists>s'. Tick env0 ?s = Some (None, s') \<and>
      cpu_i (c8_cpu s') = 50 \<and> glyph_at s' = [0xF0, 0x90, 0xF0, 0x90, 0x90]"
    unfolding v by auto
  have g: "fetch ?t = Some (0xF, 0x0, 0x2, 0x9)" by (simp add: c8_eval)
  have w: "cpu_v (c8_cpu ?t) (unat (0x0 :: u8)) = 0x10" by simp
  from Fx29_sets_I_to_5_Vx [OF g, where env = env0]
  have 2: "\<exists>s'. Tick env0 ?t = Some (None, s') \<and>
      cpu_i (c8_cpu s') = 80 \<and> 80 \<le> unat (cpu_i (c8_cpu s'))"
    unfolding w by auto
  from 1 2 show ?thesis by blast
qed

theorem Fx29_glyph_counterexample:
  "map_option glyph_at (run [([], env0), ([], env0)] (boot 0 [0x60, 0x10, 0xF0, 0x29])) =
     Some [0, 0, 0, 0, 0] \<and>
   normative_font ! unat ((0x10 :: u8) AND 0x0F) = [0xF0, 0x90, 0x90, 0x90, 0xF0]"
  by (simp add: c8_eval glyph_at_def normative_font_def fontset_def)

text \<open>
  C7. When the instruction at PC is \<open>Fx55\<close>, the tick returns exactly when I + x is
  below the size of the memory. If it returns and the instruction then at PC is \<open>Fx65\<close>
  with the same x, the next tick returns too, and after it V[0..x] hold the values
  they had before the \<open>Fx55\<close>; I is the same before and after both instructions.
\<close>

theorem Fx55_then_Fx65_restores_V:
  assumes "fetch s = Some (0xF, x, 0x5, 0x5)"
  shows
  "(Tick env s \<noteq> None \<longleftrightarrow> unat (cpu_i (c8_cpu s)) + unat x < MEM_SIZE) \<and>
   (Tick env s = Some (e1, s1) \<and> fetch s1 = Some (0xF, x, 0x6, 0x5) \<longrightarrow>
      cpu_i (c8_cpu s1) = cpu_i (c8_cpu s) \<and>
      (\<exists>s2. Tick env' s1 = Some (None, s2) \<and>
            (\<forall>n\<le>unat x. cpu_v (c8_cpu s2) n = cpu_v (c8_cpu s) n) \<and>
            cpu_i (c8_cpu s2) = cpu_i (c8_cpu s)))"
proof (intro conjI impI; (elim conjE)?)
  have x: "unat x < 16" using fetch_nibbles [OF assms] by simp
  show "Tick env s \<noteq> None \<longleftrightarrow> unat (cpu_i (c8_cpu s)) + unat x < MEM_SIZE"
  proof
    assume "Tick env s \<noteq> None"
    then obtain m where "store_loop 0 (unat x) (c8_cpu s) (c8_mem s) = Some m"
      using x by (auto simp: Tick_fetch [OF assms] execute_Fx55 split: option.splits)
    then show "unat (cpu_i (c8_cpu s)) + unat x < MEM_SIZE"
      using store_loop_range by blast
  next
    assume "unat (cpu_i (c8_cpu s)) + unat x < MEM_SIZE"
    with x obtain m where "store_loop 0 (unat x) (c8_cpu s) (c8_mem s) = Some m"
      using store_loop_Some [of "unat x" "c8_cpu s" 0 "c8_mem s"] by auto
    then show "Tick env s \<noteq> None"
      using x by (simp add: Tick_fetch [OF assms] execute_Fx55)
  qed
next
  assume t1: "Tick env s = Some (e1, s1)" and f1: "fetch s1 = Some (0xF, x, 0x6, 0x5)"
  have x: "unat x < 16" using fetch_nibbles [OF assms] by simp
  from t1 obtain m where st: "store_loop 0 (unat x) (c8_cpu s) (c8_mem s) = Some m"
    and s1: "s1 = timers env (s\<lparr>c8_mem := m, c8_cpu := exec Next (c8_cpu s)\<rparr>)"
    using x by (auto simp: Tick_fetch [OF assms] execute_Fx55 split: option.splits)
  have v1: "cpu_v (c8_cpu s1) = cpu_v (c8_cpu s)" and i1: "cpu_i (c8_cpu s1) = cpu_i (c8_cpu s)"
    and m1: "c8_mem s1 = m"
    by (simp_all add: s1 timers_regs)
  show "cpu_i (c8_cpu s1) = cpu_i (c8_cpu s)" by (rule i1)
  from store_loop_range [OF st] have r: "unat x < 64" "unat (cpu_i (c8_cpu s1)) + unat x < MEM_SIZE"
    by (simp_all add: i1)
  from load_loop_Some [OF r, of 0 m] obtain c where
    ld: "load_loop 0 (unat x) (c8_cpu s1) m = Some c" by blast
  define s2 where "s2 = timers env' (s1\<lparr>c8_cpu := exec Next c\<rparr>)"
  have t2: "Tick env' s1 = Some (None, s2)"
    using x ld by (simp add: Tick_fetch [OF f1] execute_Fx65 m1 s2_def)
  have ci: "cpu_i c = cpu_i (c8_cpu s1)" using ld by (rule load_loop_fields)
  have i2: "cpu_i (c8_cpu s2) = cpu_i (c8_cpu s)" by (simp add: s2_def timers_regs ci i1)
  have v2: "cpu_v (c8_cpu s2) n = cpu_v (c8_cpu s) n" if "n \<le> unat x" for n
  proof -
    have "cpu_v (c8_cpu s2) n = cpu_v c n" by (simp add: s2_def timers_regs)
    also have "\<dots> = mem_buf m (unat (cpu_i (c8_cpu s1) + of_nat n))"
      using load_loop_char [OF ld, of n] that by simp
    also have "\<dots> = cpu_v (c8_cpu s) n"
      using store_loop_written [OF st, of n] that by (simp add: i1)
    finally show ?thesis .
  qed
  from t2 v2 i2 show "\<exists>s2. Tick env' s1 = Some (None, s2) \<and>
            (\<forall>n\<le>unat x. cpu_v (c8_cpu s2) n = cpu_v (c8_cpu s) n) \<and>
            cpu_i (c8_cpu s2) = cpu_i (c8_cpu s)"
    by blast
qed

theorem Fx55_then_Fx65_restores_V_witness:
  "\<exists>e1 s1 s2. Tick env0 store_machine = Some (e1, s1) \<and> Tick env0 s1 = Some (None, s2) \<and>
     cpu_v (c8_cpu s2) 0 = 0xAB \<and> cpu_v (c8_cpu s2) 1 = 0xCD \<and> cpu_i (c8_cpu s2) = 0x300"
proof -
  have f: "fetch store_machine = Some (0xF, 0x1, 0x5, 0x5)"
    by (simp add: store_machine_def c8_eval)
  have i: "cpu_i (c8_cpu store_machine) = 0x300"
    and v: "cpu_v (c8_cpu store_machine) 0 = 0xAB" "cpu_v (c8_cpu store_machine) 1 = 0xCD"
    by (simp_all add: store_machine_def)
  note th = Fx55_then_Fx65_restores_V [OF f, where env = env0 and env' = env0]
  have "unat (cpu_i (c8_cpu store_machine)) + unat (0x1 :: u8) < MEM_SIZE"
    by (simp add: i MEM_SIZE_def)
  with th [THEN conjunct1] obtain e1 s1 where t1: "Tick env0 store_machine = Some (e1, s1)"
    by auto
  have m: "mem_buf (c8_mem s1) 0x202 = 0xF1" "mem_buf (c8_mem s1) 0x203 = 0x65"
    and pc: "cpu_pc (c8_cpu s1) = 0x202"
    using t1 by (auto simp: store_machine_def c8_eval store_loop.simps)
  have f1: "fetch s1 = Some (0xF, 0x1, 0x6, 0x5)"
    by (simp add: fetch_Some_iff pc m MEM_SIZE_def)
  from th [where ?e1.0 = e1 and ?s1.0 = s1, THEN conjunct2] t1 f1 i v
  show ?thesis by (auto simp: le_Suc_eq)
qed

text \<open>
  C2. A sprite drawn at origin (x, y) touches, for row i and bit b in 7..0, the pixel
  (x + 7 - b, y + i), with no reduction modulo 64 or 32 anywhere: when the 8-wide
  rectangle of the sprite lies inside the 64 x 32 plane exactly those pixels are XORed
  and no other pixel changes, and when a non-empty sprite reaches column 64 or row 32
  the draw panics; nothing is wrapped and nothing is clipped.
\<close>

theorem draw_neither_wraps_nor_clips:
  "(draw vme x y buf = None \<longleftrightarrow>
      buf \<noteq> [] \<and> (H_PIXELS \<le> unat x + 7 \<or> V_PIXELS < unat y + length buf)) \<and>
   (draw vme x y buf = Some (vf, vme') \<longrightarrow>
      (\<forall>i<length buf. \<forall>b\<le>7.
          vme_buf vme' (unat x + 7 - b) (unat y + i) =
          vme_buf vme (unat x + 7 - b) (unat y + i) XOR (drop_bit b (buf ! i) AND 1)) \<and>
      (\<forall>px py. \<not> (unat x \<le> px \<and> px < unat x + 8 \<and> unat y \<le> py \<and> py < unat y + length buf) \<longrightarrow>
          vme_buf vme' px py = vme_buf vme px py))"
proof (intro conjI impI allI)
  show "draw vme x y buf = None \<longleftrightarrow>
      buf \<noteq> [] \<and> (H_PIXELS \<le> unat x + 7 \<or> V_PIXELS < unat y + length buf)"
    by (auto simp: draw_char H_PIXELS_def V_PIXELS_def)
next
  fix i b :: nat
  assume d: "draw vme x y buf = Some (vf, vme')" and "i < length buf" "b \<le> 7"
  then show "vme_buf vme' (unat x + 7 - b) (unat y + i) =
          vme_buf vme (unat x + 7 - b) (unat y + i) XOR (drop_bit b (buf ! i) AND 1)"
    by (simp add: draw_Some_plane [OF d] sprite_bit_inside)
next
  fix px py
  assume d: "draw vme x y buf = Some (vf, vme')"
    and "\<not> (unat x \<le> px \<and> px < unat x + 8 \<and> unat y \<le> py \<and> py < unat y + length buf)"
  then show "vme_buf vme' px py = vme_buf vme px py"
    by (simp add: draw_Some_plane [OF d] sprite_bit_outside)
qed

theorem draw_neither_wraps_nor_clips_witness:
  "draw NewVideoMemory 57 0 [0x80] = None \<and>
   (\<exists>vf vme'. draw NewVideoMemory 56 31 [0x81] = Some (vf, vme') \<and>
      vme_buf vme' 63 31 = 1 \<and> vme_buf vme' 62 31 = 0 \<and> vme_buf vme' 56 31 = 1 \<and>
      vme_buf vme' 0 0 = 0)"
proof -
  note th = draw_neither_wraps_nor_clips [where vme = NewVideoMemory]
  from th [where x = 57 and y = 0 and buf = "[0x80]", THEN conjunct1]
  have 1: "draw NewVideoMemory 57 0 [0x80] = None"
    by (simp add: H_PIXELS_def V_PIXELS_def)
  from th [where x = 56 and y = 31 and buf = "[0x81]", THEN conjunct1]
  obtain vf vme' where d: "draw NewVideoMemory 56 31 [0x81] = Some (vf, vme')"
    by (cases "draw NewVideoMemory 56 31 [0x81]") (auto simp: H_PIXELS_def V_PIXELS_def)
  note r = th [where x = 56 and y = 31 and buf = "[0x81]" and vf = vf and vme' = vme',
      THEN conjunct2, rule_format, OF d]
  have z: "\<And>px py. vme_buf NewVideoMemory px py = 0" by (simp add: NewVideoMemory_def)
  from r [THEN conjunct1, rule_format, of 0 0] have a: "vme_buf vme' 63 31 = 1" by (simp add: z)
  from r [THEN conjunct1, rule_format, of 0 1] have b: "vme_buf vme' 62 31 = 0" by (simp add: z)
  from r [THEN conjunct1, rule_format, of 0 7] have c: "vme_buf vme' 56 31 = 1" by (simp add: z)
  from r [THEN conjunct2, rule_format, of 0 0] have e: "vme_buf vme' 0 0 = 0" by (simp add: z)
  from 1 d a b c e show ?thesis by blast
qed

theorem draw_wrap_clip_counterexample:
  "draw NewVideoMemory 62 30 [0xFF, 0xFF] = None \<and> draw NewVideoMemory 64 0 [0x80] = None \<and>
   run [([], env0), ([], env0)] (boot 0 [0x60, 0x40, 0xD0, 0x11]) = None"
  by (simp add: c8_eval draw_char)

text \<open>
  C6. For every draw that returns (all touched pixels in range), the result is 0 or 1,
  and it is 1 exactly when some pixel that was 1 before the draw is 0 after it. Drawing
  the same sprite again at the same coordinates returns too and gives back the video
  memory as it was before the first draw; the result of this second draw is 1 exactly
  when the first draw turned some pixel on, and 0 otherwise. \<open>Dxyn\<close> stores the result
  of the draw in VF.
\<close>

theorem draw_collision_and_undo:
  "(draw vme x y buf = Some (vf, vme') \<longrightarrow>
      (vf = 0 \<or> vf = 1) \<and>
      (vf = 1 \<longleftrightarrow> (\<exists>px py. vme_buf vme px py = 1 \<and> vme_buf vme' px py = 0)) \<and>
      (\<exists>vf2. draw vme' x y buf = Some (vf2, vme) \<and> (vf2 = 0 \<or> vf2 = 1) \<and>
         (vf2 = 1 \<longleftrightarrow> (\<exists>px py. vme_buf vme px py = 0 \<and> vme_buf vme' px py = 1)))) \<and>
   (fetch s = Some (0xD, o2, o3, o4) \<and> Tick env s = Some (e, s') \<longrightarrow>
      (\<exists>bytes r.
         buf_slice (c8_mem s) (unat (cpu_i (c8_cpu s))) (unat (cpu_i (c8_cpu s) + ucast o4)) =
           Some bytes \<and>
         draw (c8_vme s) (ucast (cpu_v (c8_cpu s) (unat o2))) (ucast (cpu_v (c8_cpu s) (unat o3)))
           bytes = Some (r, c8_vme s') \<and>
         cpu_v (c8_cpu s') = (cpu_v (c8_cpu s))(0xF := r)))"
proof (intro conjI impI; (elim conjE)?)
  assume d: "draw vme x y buf = Some (vf, vme')"
  let ?sb = "sprite_bit buf (unat x) (unat y)"
  have ok: "buf = [] \<or> (unat x + 7 < 64 \<and> unat y + length buf \<le> 32)"
    using d by (auto simp: draw_char split: if_splits)
  have vf: "vf = (if \<exists>px py. vme_buf vme px py = 1 \<and> ?sb px py = 1 then 1 else 0)"
    using d by (auto simp: draw_char split: if_splits)
  have p: "\<And>px py. vme_buf vme' px py = vme_buf vme px py XOR ?sb px py"
    using d by (rule draw_Some_plane)
  show "vf = 0 \<or> vf = 1" using vf by simp
  show "vf = 1 \<longleftrightarrow> (\<exists>px py. vme_buf vme px py = 1 \<and> vme_buf vme' px py = 0)"
    unfolding p using vf xor_flip(1) [OF sprite_bit_01] by auto
  have d2: "draw vme' x y buf =
      Some (if \<exists>px py. vme_buf vme' px py = 1 \<and> ?sb px py = 1 then 1 else 0, vme)"
    using ok by (simp add: draw_char draw_undo [OF d])
  have "(\<exists>px py. vme_buf vme' px py = 1 \<and> ?sb px py = 1) \<longleftrightarrow>
        (\<exists>px py. vme_buf vme px py = 0 \<and> vme_buf vme' px py = 1)"
    unfolding p using xor_flip(2,3) [OF sprite_bit_01] by metis
  with d2 show "\<exists>vf2. draw vme' x y buf = Some (vf2, vme) \<and> (vf2 = 0 \<or> vf2 = 1) \<and>
         (vf2 = 1 \<longleftrightarrow> (\<exists>px py. vme_buf vme px py = 0 \<and> vme_buf vme' px py = 1))"
    by auto
next
  assume f: "fetch s = Some (0xD, o2, o3, o4)" and t: "Tick env s = Some (e, s')"
  from t obtain cmd s1 where x: "execute env 0xD o2 o3 o4 s = Some (cmd, s1)"
    and s': "s' = timers env (case cmd of None \<Rightarrow> s1 | Some c \<Rightarrow> s1\<lparr>c8_cpu := exec c (c8_cpu s1)\<rparr>)"
    by (auto simp: Tick_fetch [OF f] split: option.splits)
  from fetch_nibbles [OF f] have n: "unat o2 < 16" "unat o3 < 16" by simp_all
  from execute_DRW [OF n x] obtain bytes r where
    b: "buf_slice (c8_mem s) (unat (cpu_i (c8_cpu s))) (unat (cpu_i (c8_cpu s) + ucast o4)) = Some bytes"
    and d: "draw (c8_vme s) (ucast (cpu_v (c8_cpu s) (unat o2))) (ucast (cpu_v (c8_cpu s) (unat o3))) bytes =
        Some (r, c8_vme s1)"
    and c: "cmd = Some Next"
    and s1: "s1 = s\<lparr>c8_cpu := (c8_cpu s)\<lparr>cpu_v := (cpu_v (c8_cpu s))(0xF := r)\<rparr>, c8_vme := c8_vme s1\<rparr>"
    by blast
  have "c8_vme s' = c8_vme s1" by (simp add: s' c timers_vme)
  moreover have "cpu_v (c8_cpu s') = cpu_v (c8_cpu s1)" by (simp add: s' c timers_regs)
  moreover have "cpu_v (c8_cpu s1) = (cpu_v (c8_cpu s))(0xF := r)" by (subst s1) simp
  ultimately show "\<exists>bytes r.
         buf_slice (c8_mem s) (unat (cpu_i (c8_cpu s))) (unat (cpu_i (c8_cpu s) + ucast o4)) =
           Some bytes \<and>
         draw (c8_vme s) (ucast (cpu_v (c8_cpu s) (unat o2))) (ucast (cpu_v (c8_cpu s) (unat o3)))
           bytes = Some (r, c8_vme s') \<and>
         cpu_v (c8_cpu s') = (cpu_v (c8_cpu s))(0xF := r)"
    using b d by auto
qed


theorem draw_collision_and_undo_witness:
  "(\<exists>vf2. draw lit_plane 0 0 [0x80] = Some (vf2, NewVideoMemory) \<and> vf2 = 1) \<and>
   (\<exists>e s' bytes r. Tick env0 (boot 0 [0xD0, 0x05]) = Some (e, s') \<and>
      draw NewVideoMemory 0 0 bytes = Some (r, c8_vme s') \<and> cpu_v (c8_cpu s') 0xF = r)"
proof -
  let ?s = "boot 0 [0xD0, 0x05]"
  have on: "vme_buf NewVideoMemory 0 0 = 0 \<and> vme_buf lit_plane 0 0 = 1"
    by (simp add: NewVideoMemory_def lit_plane_def)
  from draw_collision_and_undo [where vme = NewVideoMemory and x = 0 and y = 0
      and buf = "[0x80]" and vf = 0 and vme' = lit_plane, THEN conjunct1] draw_blank_lit on
  have 1: "\<exists>vf2. draw lit_plane 0 0 [0x80] = Some (vf2, NewVideoMemory) \<and> vf2 = 1"
    by blast
  have f: "fetch ?s = Some (0xD, 0x0, 0x0, 0x5)" by (simp add: c8_eval)
  obtain e s' where t: "Tick env0 ?s = Some (e, s')"
    by (cases "Tick env0 ?s") (auto simp: c8_eval draw_char)
  have v: "c8_vme ?s = NewVideoMemory" "cpu_v (c8_cpu ?s) (unat (0x0 :: u8)) = 0"
    by (simp_all add: c8_eval)
  from draw_collision_and_undo [where s = ?s and ?o2.0 = 0 and ?o3.0 = 0 and ?o4.0 = 5
      and env = env0 and e = e and s' = s', THEN conjunct2] f t
  have 2: "\<exists>bytes r. draw NewVideoMemory 0 0 bytes = Some (r, c8_vme s') \<and>
      cpu_v (c8_cpu s') 0xF = r"
    unfolding v by auto
  from 1 t 2 show ?thesis by blast
qed

theorem draw_twice_counterexample:
  "draw lit_plane 0 0 [0x80] = Some (1, NewVideoMemory) \<and>
   draw NewVideoMemory 0 0 [0x80] = Some (0, lit_plane)"
proof -
  have "sprite_bit [0x80] 0 0 0 0 = 1" by (simp add: sprite_bit_def)
  then have "\<exists>px py. vme_buf lit_plane px py = 1 \<and> sprite_bit [0x80] (unat (0 :: u16)) (unat (0 :: u16)) px py = 1"
    by (intro exI [of _ 0]) (simp add: lit_plane_def)
  then have "draw lit_plane 0 0 [0x80] = Some (1, NewVideoMemory)"
    by (auto simp: draw_char NewVideoMemory_def lit_plane_def sprite_bit_row fun_eq_iff)
  then show ?thesis using draw_blank_lit by simp
qed

end
